theory Spec2Isabelle
  imports Complex_Main "HOL-Library.Multiset"
begin

section \<open>JavaScript values used by the client\<close>

text \<open>
  Strings are \<^typ>\<open>string\<close>. Case mapping and white space are the ASCII ones: the code
  points \<open>A\<close> to \<open>Z\<close> are lowered, and \<open>\s\<close> is tab, line feed, vertical tab, form feed,
  carriage return and space. Numbers are finite JavaScript numbers, read as the rational
  they denote (\<^typ>\<open>rat\<close>); the client only compares them, takes maxima and prints them
  with \<open>toFixed\<close>, all of which depend on that value alone.

  Two built-ins are not code of this repository and are parameters of the definitions
  that call them: \<open>String.prototype.localeCompare\<close> (a collation, written \<open>lc\<close>) and
  the number-to-string conversion \<open>String(n)\<close> (written \<open>nts\<close>).
\<close>

definition isSpace :: "char \<Rightarrow> bool" where
  "isSpace c = (c \<in> set [CHR 0x09, CHR 0x0A, CHR 0x0B, CHR 0x0C, CHR 0x0D, CHR 0x20])"

definition lowerChar :: "char \<Rightarrow> char" where
  "lowerChar c =
     (let n = (of_char c :: nat) in if 65 \<le> n \<and> n \<le> 90 then char_of (n + 32) else c)"

definition toLowerCase :: "string \<Rightarrow> string" where
  "toLowerCase s = map lowerChar s"

definition trim :: "string \<Rightarrow> string" where
  "trim s = rev (dropWhile isSpace (rev (dropWhile isSpace s)))"

text \<open>
  \<open>s.split(/\s+/)\<close>: the pieces between maximal runs of white space. A run at the start
  or at the end of \<open>s\<close> leaves an empty piece there, and the empty string gives one empty
  piece. The flag says that the scan is inside a run; \<open>cur\<close> is the piece read so far,
  reversed.
\<close>

fun split_scan :: "bool \<Rightarrow> string \<Rightarrow> string \<Rightarrow> string list" where
  "split_scan inrun cur [] = [rev cur]"
| "split_scan inrun cur (c # cs) =
     (if isSpace c
      then (if inrun then split_scan True cur cs else rev cur # split_scan True [] cs)
      else split_scan False (c # cur) cs)"

definition split_ws :: "string \<Rightarrow> string list" where
  "split_ws s = split_scan False [] s"

text \<open>\<open>a || b\<close> on strings and on numbers: the empty string, zero, \<open>null\<close> and
  \<open>undefined\<close> (\<^const>\<open>None\<close>) are falsy.\<close>

definition truthy :: "string option \<Rightarrow> bool" where
  "truthy v = (case v of None \<Rightarrow> False | Some s \<Rightarrow> s \<noteq> [])"

definition or_str :: "string option \<Rightarrow> string \<Rightarrow> string" where
  "or_str a b = (if truthy a then the a else b)"

definition or_num :: "rat option \<Rightarrow> rat option \<Rightarrow> rat option" where
  "or_num a b = (case a of None \<Rightarrow> b | Some x \<Rightarrow> if x \<noteq> 0 then Some x else b)"

text \<open>\<open>a ?? b\<close>.\<close>

definition nullish :: "'a option \<Rightarrow> 'a \<Rightarrow> 'a" where
  "nullish a b = (case a of None \<Rightarrow> b | Some x \<Rightarrow> x)"

subsection \<open>\<open>Number.prototype.toFixed\<close>\<close>

definition digitChar :: "nat \<Rightarrow> char" where
  "digitChar d = char_of (48 + d)"

fun natToString :: "nat \<Rightarrow> string" where
  "natToString n =
     (if n < 10 then [digitChar n] else natToString (n div 10) @ [digitChar (n mod 10)])"

text \<open>
  The steps of the language standard: the sign is split off; a magnitude of \<open>10^21\<close> or
  more is printed by \<open>String\<close>; otherwise \<open>n\<close> is the integer nearest to \<open>x * 10^f\<close> (the
  larger one at a tie), its digits are padded with zeros to \<open>f + 1\<close> places and the
  point is put before the last \<open>f\<close>.
\<close>

definition toFixed :: "(rat \<Rightarrow> string) \<Rightarrow> nat \<Rightarrow> rat \<Rightarrow> string" where
  "toFixed nts f x =
     (let s = (if x < 0 then ''-'' else []);
          a = \<bar>x\<bar>
      in if 10 ^ 21 \<le> a then s @ nts a
         else
           let n = nat \<lfloor>a * 10 ^ f + 1 / 2\<rfloor>;
               m = natToString n;
               m2 = (if length m \<le> f then replicate (f + 1 - length m) (CHR ''0'') @ m else m);
               k = length m2
           in if f \<noteq> 0 then s @ take (k - f) m2 @ ''.'' @ drop (k - f) m2 else s @ m)"

section \<open>Data model (shared/schema.ts)\<close>

text \<open>
  \<open>Component\<close> as the schema types it: the not-null columns are strings, the nullable
  ones are options. The last three fields are the snake-case properties that the client
  reads through \<open>(c as any)\<close>; they are absent (\<^const>\<open>None\<close>) or carry a value.
\<close>

record component =
  id' :: string
  partNumber :: string
  manufacturer :: string
  category :: string
  description :: "string option"
  specMatch :: "rat option"
  totalScore :: "rat option"
  price :: "rat option"
  stock :: "string option"
  specifications :: "string option"
  part_number :: "string option"
  spec_match :: "rat option"
  total_score :: "rat option"

section \<open>Result table (component-table.tsx)\<close>

datatype SortField = PartNumber | Manufacturer | SpecMatch | TotalScore | Price

datatype SortDirection = Asc | Desc

record table =
  sortField :: SortField
  sortDirection :: SortDirection
  expandedRows :: "string set"

definition initialTable :: table where
  "initialTable = \<lparr>sortField = TotalScore, sortDirection = Desc, expandedRows = {}\<rparr>"

definition handleSort :: "table \<Rightarrow> SortField \<Rightarrow> table" where
  "handleSort t field =
     (if sortField t = field
      then t\<lparr>sortDirection := (if sortDirection t = Asc then Desc else Asc)\<rparr>
      else t\<lparr>sortField := field, sortDirection := Desc\<rparr>)"

text \<open>The value \<open>a[sortField] ?? ""\<close>: a number, or a string (the empty one when the
  field is \<open>null\<close>).\<close>

datatype sortval = Num rat | Str string

definition fieldValue :: "SortField \<Rightarrow> component \<Rightarrow> sortval" where
  "fieldValue field a =
     (case field of
        PartNumber \<Rightarrow> Str (partNumber a)
      | Manufacturer \<Rightarrow> Str (manufacturer a)
      | SpecMatch \<Rightarrow> (case specMatch a of None \<Rightarrow> Str [] | Some x \<Rightarrow> Num x)
      | TotalScore \<Rightarrow> (case totalScore a of None \<Rightarrow> Str [] | Some x \<Rightarrow> Num x)
      | Price \<Rightarrow> (case price a of None \<Rightarrow> Str [] | Some x \<Rightarrow> Num x))"

definition toString :: "(rat \<Rightarrow> string) \<Rightarrow> sortval \<Rightarrow> string" where
  "toString nts v = (case v of Num x \<Rightarrow> nts x | Str s \<Rightarrow> s)"

definition multiplier :: "SortDirection \<Rightarrow> rat" where
  "multiplier d = (if d = Asc then 1 else - 1)"

text \<open>The comparator passed to \<open>sort\<close>.\<close>

definition compareValues ::
  "(string \<Rightarrow> string \<Rightarrow> int) \<Rightarrow> (rat \<Rightarrow> string) \<Rightarrow> SortDirection \<Rightarrow> sortval \<Rightarrow> sortval \<Rightarrow> rat" where
  "compareValues lc nts d aVal bVal =
     (case (aVal, bVal) of
        (Num x, Num y) \<Rightarrow> (x - y) * multiplier d
      | _ \<Rightarrow> of_int (lc (toString nts aVal) (toString nts bVal)) * multiplier d)"

definition compareComponents ::
  "(string \<Rightarrow> string \<Rightarrow> int) \<Rightarrow> (rat \<Rightarrow> string) \<Rightarrow> SortField \<Rightarrow> SortDirection
     \<Rightarrow> component \<Rightarrow> component \<Rightarrow> rat" where
  "compareComponents lc nts field d a b =
     compareValues lc nts d (fieldValue field a) (fieldValue field b)"

text \<open>
  \<open>Array.prototype.sort\<close> with a comparator is a stable sort: \<open>a\<close> stays before \<open>b\<close>
  unless the comparator is positive on them. It is written as insertion from the right,
  which keeps equal elements in their order.
\<close>

fun insertBy :: "('a \<Rightarrow> 'a \<Rightarrow> rat) \<Rightarrow> 'a \<Rightarrow> 'a list \<Rightarrow> 'a list" where
  "insertBy cmp x [] = [x]"
| "insertBy cmp x (y # ys) = (if 0 < cmp x y then y # insertBy cmp x ys else x # y # ys)"

definition sortBy :: "('a \<Rightarrow> 'a \<Rightarrow> rat) \<Rightarrow> 'a list \<Rightarrow> 'a list" where
  "sortBy cmp xs = foldr (insertBy cmp) xs []"

definition sortedComponents ::
  "(string \<Rightarrow> string \<Rightarrow> int) \<Rightarrow> (rat \<Rightarrow> string) \<Rightarrow> table \<Rightarrow> component list \<Rightarrow> component list" where
  "sortedComponents lc nts t cs =
     sortBy (compareComponents lc nts (sortField t) (sortDirection t)) cs"

text \<open>
  The contract's reading of a missing value, for comparison with the code: a missing
  number is zero, a missing string is empty.
\<close>

definition fieldValue_contract :: "SortField \<Rightarrow> component \<Rightarrow> sortval" where
  "fieldValue_contract field a =
     (case field of
        PartNumber \<Rightarrow> Str (partNumber a)
      | Manufacturer \<Rightarrow> Str (manufacturer a)
      | SpecMatch \<Rightarrow> Num (nullish (specMatch a) 0)
      | TotalScore \<Rightarrow> Num (nullish (totalScore a) 0)
      | Price \<Rightarrow> Num (nullish (price a) 0))"

definition sortedComponents_contract ::
  "(string \<Rightarrow> string \<Rightarrow> int) \<Rightarrow> (rat \<Rightarrow> string) \<Rightarrow> table \<Rightarrow> component list \<Rightarrow> component list" where
  "sortedComponents_contract lc nts t cs =
     sortBy (\<lambda>a b. compareValues lc nts (sortDirection t)
                (fieldValue_contract (sortField t) a) (fieldValue_contract (sortField t) b)) cs"

text \<open>
  Stand-ins for the two built-ins where a concrete one is needed: code-unit order for
  the collation, and the decimal digits of an integer for \<open>String\<close>.
\<close>

fun codeUnitCompare :: "string \<Rightarrow> string \<Rightarrow> int" where
  "codeUnitCompare [] [] = 0"
| "codeUnitCompare [] (y # ys) = - 1"
| "codeUnitCompare (x # xs) [] = 1"
| "codeUnitCompare (x # xs) (y # ys) =
     (if (of_char x :: nat) < of_char y then - 1
      else if (of_char y :: nat) < of_char x then 1
      else codeUnitCompare xs ys)"

definition integerToString :: "rat \<Rightarrow> string" where
  "integerToString x = (if x < 0 then ''-'' else '''') @ natToString (nat \<lfloor>\<bar>x\<bar>\<rfloor>)"

section \<open>CSV export (export-button.tsx)\<close>

definition headers :: "string list" where
  "headers = [''Part Number'', ''Manufacturer'', ''Category'', ''Spec Match'', ''Total Score'',
              ''Price'', ''Stock'']"

text \<open>\<open>xs.join(sep)\<close>.\<close>

fun join :: "string \<Rightarrow> string list \<Rightarrow> string" where
  "join sep [] = []"
| "join sep [x] = x"
| "join sep (x # y # ys) = x @ sep @ join sep (y # ys)"

text \<open>\<open>v?.toFixed(f) ?? ""\<close>.\<close>

definition fixedOrEmpty :: "(rat \<Rightarrow> string) \<Rightarrow> nat \<Rightarrow> rat option \<Rightarrow> string" where
  "fixedOrEmpty nts f v = nullish (map_option (toFixed nts f) v) []"

definition csvCells :: "(rat \<Rightarrow> string) \<Rightarrow> component \<Rightarrow> string list" where
  "csvCells nts c =
     [or_str (Some (or_str (part_number c) (partNumber c))) [],
      or_str (Some (manufacturer c)) [],
      or_str (Some (category c)) [],
      fixedOrEmpty nts 1 (or_num (spec_match c) (specMatch c)),
      fixedOrEmpty nts 1 (or_num (total_score c) (totalScore c)),
      fixedOrEmpty nts 2 (price c),
      nullish (stock c) []]"

definition quoteCell :: "string \<Rightarrow> string" where
  "quoteCell cell = [CHR 0x22] @ cell @ [CHR 0x22]"

definition csvRow :: "string list \<Rightarrow> string" where
  "csvRow row = join '','' (map quoteCell row)"

definition exportToCSV :: "(rat \<Rightarrow> string) \<Rightarrow> component list \<Rightarrow> string" where
  "exportToCSV nts cs = join [CHR 0x0A] (join '','' headers # map (\<lambda>c. csvRow (csvCells nts c)) cs)"

subsection \<open>Reading a CSV file back\<close>

text \<open>
  The repository writes CSV and has no reader for it. The round trip is measured with
  the usual reader: records end at a line feed, fields at a
  comma; a field that starts with a double quote runs to the next double quote that is
  not doubled, and a doubled one stands for one quote character. Text after the closing
  quote is taken as it is.
\<close>

datatype csvState = FieldStart | InField | InQuoted | QuoteInQuoted

fun csvScan :: "csvState \<Rightarrow> string \<Rightarrow> string list \<Rightarrow> string \<Rightarrow> string list list" where
  "csvScan st fld row [] =
     (if st = FieldStart \<and> fld = [] \<and> row = [] then [] else [rev (rev fld # row)])"
| "csvScan st fld row (c # cs) =
     (if st = InQuoted
      then (if c = CHR 0x22 then csvScan QuoteInQuoted fld row cs
            else csvScan InQuoted (c # fld) row cs)
      else if st = QuoteInQuoted \<and> c = CHR 0x22 then csvScan InQuoted (c # fld) row cs
      else if c = CHR '','' then csvScan FieldStart [] (rev fld # row) cs
      else if c = CHR 0x0A then rev (rev fld # row) # csvScan FieldStart [] [] cs
      else if st = FieldStart \<and> c = CHR 0x22 then csvScan InQuoted fld row cs
      else csvScan InField (c # fld) row cs)"

definition parseCSV :: "string \<Rightarrow> string list list" where
  "parseCSV s = csvScan FieldStart [] [] s"

definition dataRows :: "string \<Rightarrow> string list list" where
  "dataRows s = tl (parseCSV s)"

section \<open>Search page (search-results.tsx)\<close>

record page =
  components :: "component list"
  isLoading :: bool
  explanations :: "string \<Rightarrow> string option"
  error :: "string option"
  query :: string

definition initialPage :: "string \<Rightarrow> page" where
  "initialPage q =
     \<lparr>components = [], isLoading = False, explanations = Map.empty, error = None, query = q\<rparr>"

definition obviouslyBadTerms :: "string list" where
  "obviouslyBadTerms =
     [''react'', ''javascript'', ''html'', ''css'', ''python'', ''java'', ''php'', ''node'',
      ''website'', ''frontend'', ''backend'', ''database'', ''server'', ''api'',
      ''facebook'', ''instagram'', ''twitter'', ''youtube'', ''google'', ''amazon'']"

definition isValidElectronicsQuery :: "string \<Rightarrow> bool" where
  "isValidElectronicsQuery q =
     (let trimmedQuery = toLowerCase (trim q) in
      if length trimmedQuery < 1 \<or> trimmedQuery = ''.'' \<or> trimmedQuery = ''..''
           \<or> trimmedQuery = ''...''
      then False
      else
        let ws = split_ws trimmedQuery;
            allWordsAreBad = (0 < length ws \<and> list_all (\<lambda>w. w \<in> set obviouslyBadTerms) ws)
        in \<not> allWordsAreBad)"

text \<open>What a rejected promise carries: an \<open>Error\<close> with its message, or any other
  value.\<close>

datatype thrown = ErrorObject string | OtherValue

record recommendRequest =
  rq_query :: string
  top_k :: nat

definition blockedMessage :: "string \<Rightarrow> string" where
  "blockedMessage q =
     [CHR 0x22] @ q @ [CHR 0x22] @
     '' appears to be a software/web development term. This is an electronic components search engine. Try searching for electronic parts, components, or hardware.''"

definition lowScoreMessage :: "string \<Rightarrow> string" where
  "lowScoreMessage q =
     ''No relevant electronic components found for '' @ [CHR 0x22] @ q @ [CHR 0x22] @
     ''. The search results have very low relevance scores. Try searching for more specific electronic components or part numbers.''"

text \<open>
  \<open>searchComponents\<close> up to its \<open>await\<close>: the new page state, and the request sent to
  \<open>/api/recommend\<close> if one is sent.
\<close>

definition searchComponents_start :: "page \<Rightarrow> string \<Rightarrow> page \<times> recommendRequest option" where
  "searchComponents_start s searchQuery =
     (let s1 = s\<lparr>isLoading := True, error := None\<rparr> in
      if \<not> isValidElectronicsQuery searchQuery
      then (s1\<lparr>error := Some (blockedMessage searchQuery), components := [],
                isLoading := False\<rparr>, None)
      else (s1, Some \<lparr>rq_query = searchQuery, top_k = 20\<rparr>))"

text \<open>\<open>Math.max(...components.map(c => c.spec_match || 0))\<close>, and \<open>0\<close> on the empty
  list.\<close>

definition maxScore :: "component list \<Rightarrow> rat" where
  "maxScore cs =
     (case map (\<lambda>c. nullish (or_num (spec_match c) (Some 0)) 0) cs of
        [] \<Rightarrow> 0
      | x # xs \<Rightarrow> foldl max x xs)"

text \<open>
  \<open>searchComponents\<close> from the \<open>await\<close> on: the request settles with the response's
  component list or is rejected; the \<open>catch\<close> and \<open>finally\<close> blocks are part of it.
\<close>

definition searchComponents_settle :: "page \<Rightarrow> string \<Rightarrow> thrown + component list \<Rightarrow> page" where
  "searchComponents_settle s searchQuery outcome =
     (case outcome of
        Inr cs \<Rightarrow>
          (if 0 < length cs \<and> maxScore cs < 50
           then s\<lparr>error := Some (lowScoreMessage searchQuery), components := [],
                  isLoading := False\<rparr>
           else s\<lparr>components := cs, isLoading := False\<rparr>)
      | Inl err \<Rightarrow>
          s\<lparr>error := Some (case err of ErrorObject m \<Rightarrow> m
                               | OtherValue \<Rightarrow> ''Search failed. Please try again.''),
            components := [], isLoading := False\<rparr>)"

text \<open>What the page renders, by the conditional at the end of the component.\<close>

datatype view = ErrorPanel string | Spinner | ResultsTable | NoComponents | EnterQuery

definition render :: "page \<Rightarrow> view" where
  "render s =
     (if truthy (error s) then ErrorPanel (the (error s))
      else if isLoading s then Spinner
      else if 0 < length (components s) then ResultsTable
      else if query s \<noteq> [] then NoComponents
      else EnterQuery)"

subsection \<open>Explanations\<close>

record explainRequest =
  componentId :: string
  component :: component
  ex_query :: string

definition correctedExplanation :: "component \<Rightarrow> string \<Rightarrow> string" where
  "correctedExplanation c q =
     ''The '' @ or_str (part_number c) (partNumber c) @ '' from '' @ manufacturer c @
     '' is recommended as a '' @ or_str (Some (toLowerCase (category c))) ''component'' @
     '' component that matches your query '' @ [CHR 0x27] @ q @ [CHR 0x27] @ ''.''"

definition fallbackExplanation :: "component \<Rightarrow> string \<Rightarrow> string" where
  "fallbackExplanation c q =
     ''The '' @ or_str (part_number c) (partNumber c) @ '' from '' @ manufacturer c @
     '' is recommended as a '' @ or_str (Some (toLowerCase (category c))) ''component'' @
     '' component that matches your query '' @ [CHR 0x27] @ q @ [CHR 0x27] @
     ''. This component has a high compatibility score based on your search criteria.''"

definition notAvailable :: string where
  "notAvailable = ''Component information not available.''"

text \<open>
  \<open>handleExplain\<close> up to its \<open>await\<close>: nothing when the identifier has an explanation,
  the fixed sentence when no component has the identifier, otherwise a request that
  carries the component found and the query of the render the handler belongs to.
\<close>

definition handleExplain :: "page \<Rightarrow> string \<Rightarrow> page \<times> explainRequest option" where
  "handleExplain s cid =
     (if truthy (explanations s cid) then (s, None)
      else case find (\<lambda>c. id' c = cid) (components s) of
             None \<Rightarrow> (s\<lparr>explanations := (explanations s)(cid \<mapsto> notAvailable)\<rparr>, None)
           | Some c \<Rightarrow> (s, Some \<lparr>componentId = cid, component = c, ex_query = query s\<rparr>))"

text \<open>
  \<open>handleExplain\<close> from the \<open>await\<close> on. The response's text (\<open>Some\<close>) is only logged;
  a rejection is \<^const>\<open>None\<close>. The component was found before the request, so the
  \<open>catch\<close> block takes its first branch.
\<close>

definition handleExplain_settle :: "page \<Rightarrow> explainRequest \<Rightarrow> string option \<Rightarrow> page" where
  "handleExplain_settle s r response =
     (case response of
        Some text \<Rightarrow>
          s\<lparr>explanations :=
              (explanations s)(componentId r \<mapsto> correctedExplanation (component r) (ex_query r))\<rparr>
      | None \<Rightarrow>
          s\<lparr>explanations :=
              (explanations s)(componentId r \<mapsto> fallbackExplanation (component r) (ex_query r))\<rparr>)"

text \<open>\<open>toggleRow\<close> of the table, with \<open>onExplain = handleExplain\<close>.\<close>

definition toggleRow :: "table \<Rightarrow> page \<Rightarrow> string \<Rightarrow> table \<times> page \<times> explainRequest option" where
  "toggleRow t s rid =
     (if rid \<in> expandedRows t
      then (t\<lparr>expandedRows := expandedRows t - {rid}\<rparr>, s, None)
      else
        let (s', r) = (if \<not> truthy (explanations s rid) then handleExplain s rid else (s, None))
        in (t\<lparr>expandedRows := insert rid (expandedRows t)\<rparr>, s', r))"

section \<open>The page and its table as one event-driven system\<close>

text \<open>
  The interface runs one handler at a time. The state is the page's state, the table's
  state, the explanation requests that have not settled, every explanation request sent
  so far (the latest first), and the queries of the searches that have not settled.
\<close>

record system =
  pageState :: page
  tableState :: table
  inflight :: "explainRequest list"
  sent :: "explainRequest list"
  searching :: "string list"

datatype event =
    RowClicked string
  | HeaderClicked SortField
  | SearchSubmitted string
  | RetryClicked
  | ExplainSettled nat "string option"
  | RecommendSettled nat "thrown + component list"

definition initialSystem :: "string \<Rightarrow> system" where
  "initialSystem q =
     \<lparr>pageState = initialPage q, tableState = initialTable, inflight = [], sent = [],
      searching = []\<rparr>"

definition removeAt :: "nat \<Rightarrow> 'a list \<Rightarrow> 'a list" where
  "removeAt k xs = take k xs @ drop (Suc k) xs"

definition optionList :: "'a option \<Rightarrow> 'a list" where
  "optionList v = (case v of None \<Rightarrow> [] | Some x \<Rightarrow> [x])"

text \<open>The table is mounted only while the page renders it; a table that is mounted
  again starts from its initial state.\<close>

definition remount :: "system \<Rightarrow> system" where
  "remount s = (if render (pageState s) = ResultsTable then s else s\<lparr>tableState := initialTable\<rparr>)"

definition startSearch :: "system \<Rightarrow> string \<Rightarrow> system" where
  "startSearch s q =
     (let (p, r) = searchComponents_start (pageState s) q
      in s\<lparr>pageState := p, searching := searching s @ map rq_query (optionList r)\<rparr>)"

text \<open>
  \<open>handleSearch\<close> sets the query; the effect on the query then starts a search, or
  empties the list when the query is empty. Setting the query to its present value
  changes nothing and runs no effect.
\<close>

definition handleSearch :: "system \<Rightarrow> string \<Rightarrow> system" where
  "handleSearch s newQuery =
     (if newQuery = query (pageState s) then s
      else
        let s1 = s\<lparr>pageState := (pageState s)\<lparr>query := newQuery\<rparr>\<rparr>
        in if newQuery \<noteq> [] then startSearch s1 newQuery
           else s1\<lparr>pageState := (pageState s1)\<lparr>components := [], error := None\<rparr>\<rparr>)"

text \<open>
  Mounting the page at a URL whose query is \<open>q\<close>: the state hooks take their initial
  values and the effect on the query runs once, starting a search when \<open>q\<close> is not empty.
\<close>

definition mountPage :: "string \<Rightarrow> system" where
  "mountPage q = (if q \<noteq> [] then startSearch (initialSystem q) q else initialSystem q)"

text \<open>The button of the error panel: \<open>searchComponents(query)\<close>.\<close>

definition retry :: "system \<Rightarrow> system" where
  "retry s = startSearch s (query (pageState s))"

definition clickRow :: "system \<Rightarrow> string \<Rightarrow> system" where
  "clickRow s rid =
     (let (t, p, r) = toggleRow (tableState s) (pageState s) rid
      in s\<lparr>tableState := t, pageState := p, inflight := inflight s @ optionList r,
           sent := optionList r @ sent s\<rparr>)"

definition step :: "system \<Rightarrow> event \<Rightarrow> system" where
  "step s ev =
     remount
       (case ev of
          RowClicked rid \<Rightarrow>
            (if render (pageState s) = ResultsTable \<and> rid \<in> set (map id' (components (pageState s)))
             then clickRow s rid else s)
        | HeaderClicked field \<Rightarrow>
            (if render (pageState s) = ResultsTable
             then s\<lparr>tableState := handleSort (tableState s) field\<rparr> else s)
        | SearchSubmitted newQuery \<Rightarrow> handleSearch s newQuery
        | RetryClicked \<Rightarrow> (if truthy (error (pageState s)) then retry s else s)
        | ExplainSettled k response \<Rightarrow>
            (if k < length (inflight s)
             then s\<lparr>pageState := handleExplain_settle (pageState s) (inflight s ! k) response,
                    inflight := removeAt k (inflight s)\<rparr>
             else s)
        | RecommendSettled k outcome \<Rightarrow>
            (if k < length (searching s)
             then s\<lparr>pageState := searchComponents_settle (pageState s) (searching s ! k) outcome,
                    searching := removeAt k (searching s)\<rparr>
             else s))"

definition run :: "system \<Rightarrow> event list \<Rightarrow> system" where
  "run s evs = foldl step s evs"

text \<open>The explanation requests sent for one identifier.\<close>

definition requestsFor :: "string \<Rightarrow> system \<Rightarrow> explainRequest list" where
  "requestsFor cid s = filter (\<lambda>r. componentId r = cid) (sent s)"

text \<open>Sample components for concrete runs.\<close>

definition sampleComponent :: "string \<Rightarrow> string \<Rightarrow> rat option \<Rightarrow> component" where
  "sampleComponent i pn pr =
     \<lparr>id' = i, partNumber = pn, manufacturer = ''Texas Instruments'',
      category = ''Voltage Regulator'', description = None, specMatch = Some (191 / 2),
      totalScore = Some (923 / 10), price = pr, stock = Some ''In Stock'',
      specifications = None, part_number = None, spec_match = Some (191 / 2),
      total_score = None\<rparr>"

subsection \<open>Specification predicates\<close>

text \<open>A string in fixed notation with \<open>f\<close> decimals: an optional minus sign, at least one
  digit, a point and exactly \<open>f\<close> digits.\<close>

definition isDigit :: "char \<Rightarrow> bool" where
  "isDigit c = (48 \<le> (of_char c :: nat) \<and> (of_char c :: nat) \<le> 57)"

definition fixedFormat :: "nat \<Rightarrow> string \<Rightarrow> bool" where
  "fixedFormat f s =
     (let body = (case s of [] \<Rightarrow> [] | c # cs \<Rightarrow> if c = CHR ''-'' then cs else s);
          whole = takeWhile isDigit body;
          rest = dropWhile isDigit body
      in whole \<noteq> [] \<and>
         (case rest of [] \<Rightarrow> False
          | p # ds \<Rightarrow> p = CHR ''.'' \<and> length ds = f \<and> list_all isDigit ds))"

text \<open>The number such a string denotes.\<close>

definition digitsValue :: "string \<Rightarrow> nat" where
  "digitsValue ds = foldl (\<lambda>a c. 10 * a + (of_char c - 48)) 0 ds"

definition readFixed :: "string \<Rightarrow> rat" where
  "readFixed s =
     (let negative = (case s of [] \<Rightarrow> False | c # cs \<Rightarrow> c = CHR ''-'');
          body = (if negative then tl s else s);
          places = length (tl (dropWhile isDigit body))
      in (if negative then - 1 else 1) * of_nat (digitsValue (filter isDigit body)) / 10 ^ places)"

text \<open>A comparator that \<open>sort\<close> can order by: total and transitive.\<close>

definition consistent :: "('a \<Rightarrow> 'a \<Rightarrow> rat) \<Rightarrow> bool" where
  "consistent cmp =
     ((\<forall>a b. 0 < cmp a b \<longrightarrow> cmp b a \<le> 0) \<and>
      (\<forall>a b c. cmp a b \<le> 0 \<and> cmp b c \<le> 0 \<longrightarrow> cmp a c \<le> 0))"

text \<open>What is assumed of \<open>localeCompare\<close>: it is a total preorder on strings, given by
  the sign of its result. Strings that differ may compare as equal.\<close>

definition collation :: "(string \<Rightarrow> string \<Rightarrow> int) \<Rightarrow> bool" where
  "collation lc =
     ((\<forall>a. lc a a = 0) \<and> (\<forall>a b. (lc a b < 0) = (0 < lc b a)) \<and>
      (\<forall>a b c. lc a b \<le> 0 \<and> lc b c \<le> 0 \<longrightarrow> lc a c \<le> 0))"

text \<open>The values a numeric column can take: a number, or the empty string.\<close>

definition numberOrEmpty :: "sortval \<Rightarrow> bool" where
  "numberOrEmpty v = (case v of Num x \<Rightarrow> True | Str s \<Rightarrow> s = [])"

text \<open>
  What holds of the explanation cache in every state the system reaches: an outstanding
  request is one that was sent, a request carries the component that has its identifier,
  and every entry is the fixed sentence or a sentence built for a request for the entry's
  own identifier.
\<close>

definition cacheInvariant :: "system \<Rightarrow> bool" where
  "cacheInvariant s =
     (set (inflight s) \<subseteq> set (sent s)
      \<and> (\<forall>r \<in> set (sent s). id' (component r) = componentId r)
      \<and> (\<forall>k v. explanations (pageState s) k = Some v \<longrightarrow>
             v = notAvailable
             \<or> (\<exists>r \<in> set (sent s). componentId r = k
                  \<and> (v = correctedExplanation (component r) (ex_query r)
                     \<or> v = fallbackExplanation (component r) (ex_query r)))))"

section \<open>Properties\<close>

declare natToString.simps [simp del]

subsection \<open>Sorting\<close>

lemma mset_insertBy: "mset (insertBy cmp x ys) = add_mset x (mset ys)"
  by (induction ys) auto

lemma mset_sortBy: "mset (sortBy cmp xs) = mset xs"
  unfolding sortBy_def by (induction xs) (auto simp: mset_insertBy)

lemma set_insertBy: "set (insertBy cmp x ys) = insert x (set ys)"
  by (induction ys) auto

lemma sorted_insertBy:
  assumes "consistent cmp" "sorted_wrt (\<lambda>a b. cmp a b \<le> 0) ys"
  shows "sorted_wrt (\<lambda>a b. cmp a b \<le> 0) (insertBy cmp x ys)"
  using assms(2)
proof (induction ys)
  case Nil
  then show ?case by simp
next
  case (Cons y ys)
  show ?case
  proof (cases "0 < cmp x y")
    case True
    then have yx: "cmp y x \<le> 0" using assms(1) by (auto simp: consistent_def)
    from Cons have "sorted_wrt (\<lambda>a b. cmp a b \<le> 0) (insertBy cmp x ys)" by simp
    moreover have "\<forall>z \<in> set (insertBy cmp x ys). cmp y z \<le> 0"
      using Cons.prems yx by (auto simp: set_insertBy)
    ultimately show ?thesis using True by simp
  next
    case False
    then have xy: "cmp x y \<le> 0" by simp
    have "\<forall>z \<in> set ys. cmp x z \<le> 0"
    proof
      fix z assume "z \<in> set ys"
      then have "cmp y z \<le> 0" using Cons.prems by auto
      with xy show "cmp x z \<le> 0" using assms(1) unfolding consistent_def by blast
    qed
    then show ?thesis using False xy Cons.prems by simp
  qed
qed

lemma sorted_sortBy:
  "consistent cmp \<Longrightarrow> sorted_wrt (\<lambda>a b. cmp a b \<le> 0) (sortBy cmp xs)"
  unfolding sortBy_def by (induction xs) (auto intro: sorted_insertBy)

lemma compareValues_Asc:
  "compareValues lc nts Asc u v =
     (case (u, v) of (Num x, Num y) \<Rightarrow> x - y
      | _ \<Rightarrow> of_int (lc (toString nts u) (toString nts v)))"
  by (auto simp: compareValues_def multiplier_def split: sortval.splits)

lemma compareValues_Desc: "compareValues lc nts Desc u v = - compareValues lc nts Asc u v"
  by (auto simp: compareValues_def multiplier_def split: sortval.splits)

lemma collation_flip: "collation lc \<Longrightarrow> (lc a b \<le> 0) = (0 \<le> lc b a)"
  unfolding collation_def by (metis not_less)

lemma compareValues_flip:
  "collation lc \<Longrightarrow> (compareValues lc nts Asc u v \<le> 0) = (0 \<le> compareValues lc nts Asc v u)"
  by (cases u; cases v) (auto simp: compareValues_Asc toString_def collation_flip)

lemma trans_numberOrEmpty:
  assumes "collation lc" "\<forall>x. lc [] (nts x) < 0"
    "numberOrEmpty u" "numberOrEmpty v" "numberOrEmpty w"
    "compareValues lc nts Asc u v \<le> 0" "compareValues lc nts Asc v w \<le> 0"
  shows "compareValues lc nts Asc u w \<le> 0"
proof -
  have e: "lc [] [] = 0" and l: "\<And>x. lc [] (nts x) < 0"
    using assms(1,2) unfolding collation_def by auto
  have g: "\<And>x. 0 < lc (nts x) []"
    using l assms(1) unfolding collation_def by blast
  have g': "\<And>x. \<not> lc (nts x) [] \<le> 0" using g by (simp add: not_le)
  have l': "\<And>x. lc [] (nts x) \<le> 0" using l by (simp add: less_imp_le)
  show ?thesis
  proof (cases u)
    case (Num x)
    show ?thesis
    proof (cases v)
      case (Num y)
      then show ?thesis using assms(3-7) \<open>u = Num x\<close> g' l' e
        by (cases w) (simp_all add: compareValues_Asc toString_def numberOrEmpty_def)
    next
      case (Str s)
      then show ?thesis using assms(3-7) \<open>u = Num x\<close> g' l' e
        by (cases w) (simp_all add: compareValues_Asc toString_def numberOrEmpty_def)
    qed
  next
    case (Str s)
    then show ?thesis using assms(3-7) g' l' e
      by (cases w) (simp_all add: compareValues_Asc toString_def numberOrEmpty_def)
  qed
qed

lemma trans_strings:
  assumes "collation lc"
    "compareValues lc nts Asc (Str a) (Str b) \<le> 0"
    "compareValues lc nts Asc (Str b) (Str c) \<le> 0"
  shows "compareValues lc nts Asc (Str a) (Str c) \<le> 0"
proof -
  have t: "\<And>a b c. lc a b \<le> 0 \<Longrightarrow> lc b c \<le> 0 \<Longrightarrow> lc a c \<le> 0"
    using assms(1) unfolding collation_def by blast
  show ?thesis using assms(2,3) t[of a b c] by (simp add: compareValues_Asc toString_def)
qed

lemma fieldValue_shape:
  "(\<forall>a. numberOrEmpty (fieldValue f a)) \<or> (\<forall>a. \<exists>s. fieldValue f a = Str s)"
  by (cases f) (auto simp: fieldValue_def numberOrEmpty_def split: option.splits)

lemma consistent_Asc:
  assumes "collation lc" "\<forall>x. lc [] (nts x) < 0"
  shows "consistent (compareComponents lc nts f Asc)"
proof -
  have tot: "\<And>a b. 0 < compareComponents lc nts f Asc a b \<Longrightarrow> compareComponents lc nts f Asc b a \<le> 0"
    using compareValues_flip[OF assms(1)] by (simp add: compareComponents_def less_imp_le)
  have tr: "\<And>a b c. compareComponents lc nts f Asc a b \<le> 0 \<Longrightarrow> compareComponents lc nts f Asc b c \<le> 0
                 \<Longrightarrow> compareComponents lc nts f Asc a c \<le> 0"
  proof -
    fix a b c
    assume ab: "compareComponents lc nts f Asc a b \<le> 0" and bc: "compareComponents lc nts f Asc b c \<le> 0"
    from fieldValue_shape[of f] show "compareComponents lc nts f Asc a c \<le> 0"
    proof
      assume "\<forall>a. numberOrEmpty (fieldValue f a)"
      then show ?thesis using trans_numberOrEmpty[OF assms, of "fieldValue f a" "fieldValue f b" "fieldValue f c"] ab bc
        by (simp add: compareComponents_def)
    next
      assume s: "\<forall>a. \<exists>s. fieldValue f a = Str s"
      obtain u where u: "fieldValue f a = Str u" using s by blast
      obtain v where v: "fieldValue f b = Str v" using s by blast
      obtain w where w: "fieldValue f c = Str w" using s by blast
      show ?thesis using trans_strings[OF assms(1), of nts u v w] ab bc u v w
        by (simp add: compareComponents_def)
    qed
  qed
  show ?thesis unfolding consistent_def using tot tr by blast
qed

lemma consistent_Desc:
  assumes "collation lc" "\<forall>x. lc [] (nts x) < 0"
  shows "consistent (compareComponents lc nts f Desc)"
proof -
  let ?A = "compareComponents lc nts f Asc"
  have d: "\<And>a b. compareComponents lc nts f Desc a b = - ?A a b"
    by (simp add: compareComponents_def compareValues_Desc)
  have fl: "\<And>a b. (?A a b \<le> 0) = (0 \<le> ?A b a)"
    using compareValues_flip[OF assms(1)] by (simp add: compareComponents_def)
  have c: "consistent ?A" by (rule consistent_Asc[OF assms])
  have tr: "\<And>a b c. ?A a b \<le> 0 \<Longrightarrow> ?A b c \<le> 0 \<Longrightarrow> ?A a c \<le> 0"
    using c unfolding consistent_def by blast
  show ?thesis unfolding consistent_def
  proof (intro conjI allI impI)
    fix a b assume "0 < compareComponents lc nts f Desc a b"
    then have "?A a b \<le> 0" by (simp add: d)
    then have "0 \<le> ?A b a" using fl[of a b] by simp
    then show "compareComponents lc nts f Desc b a \<le> 0" by (simp add: d)
  next
    fix a b c assume "compareComponents lc nts f Desc a b \<le> 0 \<and> compareComponents lc nts f Desc b c \<le> 0"
    then have "0 \<le> ?A a b" "0 \<le> ?A b c" by (simp_all add: d)
    then have "?A b a \<le> 0" "?A c b \<le> 0" using fl by simp_all
    then have "?A c a \<le> 0" using tr[of c b a] by simp
    then have "0 \<le> ?A a c" using fl[of c a] by simp
    then show "compareComponents lc nts f Desc a c \<le> 0" by (simp add: d)
  qed
qed

lemma consistent_compareComponents:
  "collation lc \<Longrightarrow> \<forall>x. lc [] (nts x) < 0 \<Longrightarrow> consistent (compareComponents lc nts f d)"
  by (cases d) (simp_all add: consistent_Asc consistent_Desc)

lemma cuc_refl: "codeUnitCompare a a = 0"
  by (induction a) auto

lemma cuc_flip: "(codeUnitCompare a b < 0) = (0 < codeUnitCompare b a)"
  by (induction a b rule: codeUnitCompare.induct) auto

lemma natToString_nonempty: "natToString n \<noteq> []"
  by (subst natToString.simps) simp

lemma integerToString_nonempty: "\<forall>x. integerToString x \<noteq> []"
  by (simp add: integerToString_def natToString_nonempty)

lemma cuc_trans:
  "codeUnitCompare a b \<le> 0 \<Longrightarrow> codeUnitCompare b c \<le> 0 \<Longrightarrow> codeUnitCompare a c \<le> 0"
proof (induction a arbitrary: b c)
  case Nil
  then show ?case by (cases c) simp_all
next
  case (Cons x xs)
  from Cons.prems(1) obtain y ys where b: "b = y # ys" by (cases b) simp_all
  from Cons.prems(2) b obtain z zs where c: "c = z # zs" by (cases c) simp_all
  let ?x = "of_char x :: nat" and ?y = "of_char y :: nat" and ?z = "of_char z :: nat"
  from Cons.prems(1) b have xy: "?x \<le> ?y" by (simp split: if_splits)
  from Cons.prems(2) b c have yz: "?y \<le> ?z" by (simp split: if_splits)
  show ?case
  proof (cases "?x < ?z")
    case True
    then show ?thesis using c by simp
  next
    case False
    then have "?x = ?y" "?y = ?z" using xy yz by linarith+
    then have eq: "x = y" "y = z" by simp_all
    then have "codeUnitCompare xs ys \<le> 0" "codeUnitCompare ys zs \<le> 0"
      using Cons.prems b c by simp_all
    then have "codeUnitCompare xs zs \<le> 0" by (rule Cons.IH)
    then show ?thesis using c eq by simp
  qed
qed

lemma collation_codeUnitCompare: "collation codeUnitCompare"
  unfolding collation_def
proof (intro conjI allI impI)
  fix a b c assume "codeUnitCompare a b \<le> 0 \<and> codeUnitCompare b c \<le> 0"
  then show "codeUnitCompare a c \<le> 0" using cuc_trans by blast
qed (simp_all add: cuc_refl cuc_flip)

lemma emptyFirst_integerToString: "\<forall>x. codeUnitCompare [] (integerToString x) < 0"
proof
  fix x
  have "integerToString x \<noteq> []" using integerToString_nonempty by simp
  then show "codeUnitCompare [] (integerToString x) < 0"
    by (cases "integerToString x") simp_all
qed

subsection \<open>Claims on sorting\<close>

text \<open>
  C3 (amended). For every list of components, every sort field and every direction,
  \<open>sortedComponents\<close> is a rearrangement of the list that is ordered by the table's
  comparator. Two present numbers compare by their difference, two strings compare by
  \<open>localeCompare\<close>, and a component without a value in a numeric column carries the empty
  string there, not zero: ascending it comes before every component that has a number,
  descending after. The collation is assumed to be a total preorder, in which the empty
  string comes before \<open>String(n)\<close> for every number \<open>n\<close>.
\<close>

theorem sortedComponents_ordered:
  assumes "collation lc" and "\<forall>x. lc [] (nts x) < 0"
  shows "mset (sortedComponents lc nts t cs) = mset cs
       \<and> sorted_wrt (\<lambda>a b. compareComponents lc nts (sortField t) (sortDirection t) a b \<le> 0)
            (sortedComponents lc nts t cs)
       \<and> (\<forall>f d a b x y. fieldValue f a = Num x \<and> fieldValue f b = Num y
             \<longrightarrow> compareComponents lc nts f d a b = (x - y) * multiplier d)
       \<and> (\<forall>f d a b u v. fieldValue f a = Str u \<and> fieldValue f b = Str v
             \<longrightarrow> compareComponents lc nts f d a b = of_int (lc u v) * multiplier d)
       \<and> (\<forall>a. fieldValue SpecMatch a = (case specMatch a of None \<Rightarrow> Str [] | Some x \<Rightarrow> Num x)
             \<and> fieldValue TotalScore a = (case totalScore a of None \<Rightarrow> Str [] | Some x \<Rightarrow> Num x)
             \<and> fieldValue Price a = (case price a of None \<Rightarrow> Str [] | Some x \<Rightarrow> Num x)
             \<and> fieldValue PartNumber a = Str (partNumber a)
             \<and> fieldValue Manufacturer a = Str (manufacturer a))
       \<and> (\<forall>f a b y. fieldValue f a = Str [] \<and> fieldValue f b = Num y
             \<longrightarrow> compareComponents lc nts f Asc a b < 0 \<and> 0 < compareComponents lc nts f Desc a b)"
proof -
  have l: "\<And>x. lc [] (nts x) < 0" using assms(2) by simp
  have 1: "mset (sortedComponents lc nts t cs) = mset cs"
    by (simp add: sortedComponents_def mset_sortBy)
  have 2: "sorted_wrt (\<lambda>a b. compareComponents lc nts (sortField t) (sortDirection t) a b \<le> 0)
            (sortedComponents lc nts t cs)"
    unfolding sortedComponents_def
    by (rule sorted_sortBy) (rule consistent_compareComponents[OF assms])
  have 3: "\<forall>f d a b x y. fieldValue f a = Num x \<and> fieldValue f b = Num y
             \<longrightarrow> compareComponents lc nts f d a b = (x - y) * multiplier d"
    by (simp add: compareComponents_def compareValues_def)
  have 4: "\<forall>f d a b u v. fieldValue f a = Str u \<and> fieldValue f b = Str v
             \<longrightarrow> compareComponents lc nts f d a b = of_int (lc u v) * multiplier d"
    by (simp add: compareComponents_def compareValues_def toString_def)
  have 5: "\<forall>a. fieldValue SpecMatch a = (case specMatch a of None \<Rightarrow> Str [] | Some x \<Rightarrow> Num x)
             \<and> fieldValue TotalScore a = (case totalScore a of None \<Rightarrow> Str [] | Some x \<Rightarrow> Num x)
             \<and> fieldValue Price a = (case price a of None \<Rightarrow> Str [] | Some x \<Rightarrow> Num x)
             \<and> fieldValue PartNumber a = Str (partNumber a)
             \<and> fieldValue Manufacturer a = Str (manufacturer a)"
    by (simp add: fieldValue_def)
  have 6: "\<forall>f a b y. fieldValue f a = Str [] \<and> fieldValue f b = Num y
             \<longrightarrow> compareComponents lc nts f Asc a b < 0 \<and> 0 < compareComponents lc nts f Desc a b"
    using l by (simp add: compareComponents_def compareValues_def toString_def multiplier_def)
  from 1 2 3 4 5 6 show ?thesis by blast
qed

text \<open>The theorem at a three-element list sorted by price, ascending, with code-unit
  order as the collation: the component without a price comes first, then prices \<open>0\<close>
  and \<open>5\<close>.\<close>

theorem sortedComponents_ordered_witness:
  "collation codeUnitCompare \<and> (\<forall>x. codeUnitCompare [] (integerToString x) < 0)
   \<and> map id' (sortedComponents codeUnitCompare integerToString
         \<lparr>sortField = Price, sortDirection = Asc, expandedRows = {}\<rparr>
         [sampleComponent ''1'' ''LM7805'' (Some 5), sampleComponent ''2'' ''LM317'' None,
          sampleComponent ''3'' ''AMS1117'' (Some 0)])
       = [''2'', ''3'', ''1'']
   \<and> mset (sortedComponents codeUnitCompare integerToString
         \<lparr>sortField = Price, sortDirection = Asc, expandedRows = {}\<rparr>
         [sampleComponent ''1'' ''LM7805'' (Some 5), sampleComponent ''2'' ''LM317'' None,
          sampleComponent ''3'' ''AMS1117'' (Some 0)])
       = mset [sampleComponent ''1'' ''LM7805'' (Some 5), sampleComponent ''2'' ''LM317'' None,
          sampleComponent ''3'' ''AMS1117'' (Some 0)]
   \<and> sorted_wrt (\<lambda>a b. compareComponents codeUnitCompare integerToString Price Asc a b \<le> 0)
        (sortedComponents codeUnitCompare integerToString
          \<lparr>sortField = Price, sortDirection = Asc, expandedRows = {}\<rparr>
          [sampleComponent ''1'' ''LM7805'' (Some 5), sampleComponent ''2'' ''LM317'' None,
           sampleComponent ''3'' ''AMS1117'' (Some 0)])
   \<and> compareComponents codeUnitCompare integerToString Price Desc
        (sampleComponent ''3'' ''AMS1117'' (Some 0)) (sampleComponent ''1'' ''LM7805'' (Some 5))
       = (0 - 5) * multiplier Desc
   \<and> compareComponents codeUnitCompare integerToString PartNumber Asc
        (sampleComponent ''1'' ''LM7805'' (Some 5)) (sampleComponent ''2'' ''LM317'' None)
       = of_int (codeUnitCompare ''LM7805'' ''LM317'') * multiplier Asc
   \<and> compareComponents codeUnitCompare integerToString Price Asc
        (sampleComponent ''2'' ''LM317'' None) (sampleComponent ''3'' ''AMS1117'' (Some 0)) < 0
   \<and> 0 < compareComponents codeUnitCompare integerToString Price Desc
        (sampleComponent ''2'' ''LM317'' None) (sampleComponent ''3'' ''AMS1117'' (Some 0))"
proof -
  let ?t = "\<lparr>sortField = Price, sortDirection = Asc, expandedRows = {}\<rparr>"
  let ?cs = "[sampleComponent ''1'' ''LM7805'' (Some 5), sampleComponent ''2'' ''LM317'' None,
          sampleComponent ''3'' ''AMS1117'' (Some 0)]"
  note th = sortedComponents_ordered [OF collation_codeUnitCompare emptyFirst_integerToString,
      of ?t ?cs]
  have out: "map id' (sortedComponents codeUnitCompare integerToString ?t ?cs) = [''2'', ''3'', ''1'']"
    by code_simp
  have v1: "fieldValue Price (sampleComponent ''3'' ''AMS1117'' (Some 0)) = Num 0"
    and v2: "fieldValue Price (sampleComponent ''1'' ''LM7805'' (Some 5)) = Num 5"
    and v3: "fieldValue Price (sampleComponent ''2'' ''LM317'' None) = Str []"
    and v4: "fieldValue PartNumber (sampleComponent ''1'' ''LM7805'' (Some 5)) = Str ''LM7805''"
    and v5: "fieldValue PartNumber (sampleComponent ''2'' ''LM317'' None) = Str ''LM317''"
    by (simp_all add: fieldValue_def sampleComponent_def)
  from th v1 v2 have a: "compareComponents codeUnitCompare integerToString Price Desc
        (sampleComponent ''3'' ''AMS1117'' (Some 0)) (sampleComponent ''1'' ''LM7805'' (Some 5))
       = (0 - 5) * multiplier Desc" by blast
  from th v4 v5 have b: "compareComponents codeUnitCompare integerToString PartNumber Asc
        (sampleComponent ''1'' ''LM7805'' (Some 5)) (sampleComponent ''2'' ''LM317'' None)
       = of_int (codeUnitCompare ''LM7805'' ''LM317'') * multiplier Asc" by blast
  from th v3 v1 have c: "compareComponents codeUnitCompare integerToString Price Asc
        (sampleComponent ''2'' ''LM317'' None) (sampleComponent ''3'' ''AMS1117'' (Some 0)) < 0
   \<and> 0 < compareComponents codeUnitCompare integerToString Price Desc
        (sampleComponent ''2'' ''LM317'' None) (sampleComponent ''3'' ''AMS1117'' (Some 0))" by blast
  from th have d: "mset (sortedComponents codeUnitCompare integerToString ?t ?cs) = mset ?cs
   \<and> sorted_wrt (\<lambda>a b. compareComponents codeUnitCompare integerToString Price Asc a b \<le> 0)
        (sortedComponents codeUnitCompare integerToString ?t ?cs)"
    by simp
  from out a b c d collation_codeUnitCompare emptyFirst_integerToString show ?thesis by blast
qed

text \<open>
  C3 as stated fails: with prices \<open>0\<close> and missing, ascending, the table puts the
  component without a price first, while a missing price that counted as zero would tie
  with \<open>0\<close> and the stable sort would leave the list as it was.
\<close>

theorem sort_missing_counterexample:
  "sortedComponents codeUnitCompare integerToString
      \<lparr>sortField = Price, sortDirection = Asc, expandedRows = {}\<rparr>
      [sampleComponent ''1'' ''LM7805'' (Some 0), sampleComponent ''2'' ''LM317'' None]
     = [sampleComponent ''2'' ''LM317'' None, sampleComponent ''1'' ''LM7805'' (Some 0)]
   \<and> sortedComponents_contract codeUnitCompare integerToString
      \<lparr>sortField = Price, sortDirection = Asc, expandedRows = {}\<rparr>
      [sampleComponent ''1'' ''LM7805'' (Some 0), sampleComponent ''2'' ''LM317'' None]
     = [sampleComponent ''1'' ''LM7805'' (Some 0), sampleComponent ''2'' ''LM317'' None]"
  by code_simp

text \<open>
  C4. When a field is the current sort field, clicking its header twice toggles the
  direction twice and restores the table state, so the displayed list is the one shown
  before the two clicks.
\<close>

theorem handleSort_involution:
  assumes "sortField t = field"
  shows "handleSort (handleSort t field) field = t
   \<and> sortedComponents lc nts (handleSort (handleSort t field) field) cs = sortedComponents lc nts t cs"
proof -
  have "handleSort (handleSort t field) field = t"
    using assms by (cases t; cases "sortDirection t") (simp_all add: handleSort_def)
  then show ?thesis by simp
qed

text \<open>The theorem at the initial table (total score, descending): one click reverses
  the two rows, the second click restores them.\<close>

theorem handleSort_involution_witness:
  "sortField initialTable = TotalScore
   \<and> handleSort (handleSort initialTable TotalScore) TotalScore = initialTable
   \<and> map id' (sortedComponents codeUnitCompare integerToString (handleSort initialTable TotalScore)
        [sampleComponent ''1'' ''LM7805'' None, (sampleComponent ''2'' ''LM317'' None)\<lparr>totalScore := Some (428 / 5)\<rparr>])
       = [''2'', ''1'']
   \<and> map id' (sortedComponents codeUnitCompare integerToString
        (handleSort (handleSort initialTable TotalScore) TotalScore)
        [sampleComponent ''1'' ''LM7805'' None, (sampleComponent ''2'' ''LM317'' None)\<lparr>totalScore := Some (428 / 5)\<rparr>])
       = map id' (sortedComponents codeUnitCompare integerToString initialTable
        [sampleComponent ''1'' ''LM7805'' None, (sampleComponent ''2'' ''LM317'' None)\<lparr>totalScore := Some (428 / 5)\<rparr>])"
proof -
  have h: "sortField initialTable = TotalScore" by (simp add: initialTable_def)
  have e: "map id' (sortedComponents codeUnitCompare integerToString (handleSort initialTable TotalScore)
        [sampleComponent ''1'' ''LM7805'' None, (sampleComponent ''2'' ''LM317'' None)\<lparr>totalScore := Some (428 / 5)\<rparr>])
       = [''2'', ''1'']" by code_simp
  show ?thesis using h e handleSort_involution[OF h] by simp
qed

subsection \<open>Claims on searching\<close>

lemma foldl_max_less:
  "(foldl max x xs < (b::rat)) = (x < b \<and> (\<forall>y \<in> set xs. y < b))"
  by (induction xs arbitrary: x) auto

lemma maxScore_less:
  "cs \<noteq> [] \<Longrightarrow>
     (maxScore cs < b) = (\<forall>c \<in> set cs. nullish (or_num (spec_match c) (Some 0)) 0 < b)"
  by (cases cs) (simp_all add: maxScore_def foldl_max_less)

lemma split_scan_nonempty: "split_scan b cur s \<noteq> []"
  by (induction s arbitrary: b cur) auto

lemma blockedMessage_nonempty: "blockedMessage q \<noteq> []"
  by (simp add: blockedMessage_def)

lemma lowScoreMessage_nonempty: "lowScoreMessage q \<noteq> []"
  by (simp add: lowScoreMessage_def)

text \<open>
  C10. A search can end in the error state with an empty result list without any
  failure of the backend. A query whose words (the pieces of the trimmed, lower-cased
  query between runs of white space) all belong to \<open>obviouslyBadTerms\<close> is rejected by
  \<open>searchComponents\<close> before any request is sent; and a response that carries at least
  one component, all with a \<open>spec_match\<close> below 50 (a missing one counts as 0), sets the
  error and empties the list instead of showing the components.
\<close>

theorem search_rejected_without_failure:
  "(list_all (\<lambda>w. w \<in> set obviouslyBadTerms) (split_ws (toLowerCase (trim q)))
      \<longrightarrow> searchComponents_start s q
            = (s\<lparr>isLoading := False, error := Some (blockedMessage q), components := []\<rparr>, None)
          \<and> render (fst (searchComponents_start s q)) = ErrorPanel (blockedMessage q))
   \<and> (cs \<noteq> [] \<and> (\<forall>c \<in> set cs. nullish (or_num (spec_match c) (Some 0)) 0 < 50)
      \<longrightarrow> searchComponents_settle s q (Inr cs)
            = s\<lparr>error := Some (lowScoreMessage q), components := [], isLoading := False\<rparr>
          \<and> render (searchComponents_settle s q (Inr cs)) = ErrorPanel (lowScoreMessage q))"
proof -
  have a: "list_all (\<lambda>w. w \<in> set obviouslyBadTerms) (split_ws (toLowerCase (trim q)))
      \<Longrightarrow> \<not> isValidElectronicsQuery q"
  proof -
    assume h: "list_all (\<lambda>w. w \<in> set obviouslyBadTerms) (split_ws (toLowerCase (trim q)))"
    have "split_ws (toLowerCase (trim q)) \<noteq> []"
      by (simp add: split_ws_def split_scan_nonempty)
    then show ?thesis using h by (simp add: isValidElectronicsQuery_def Let_def)
  qed
  show ?thesis
    using a maxScore_less[of cs 50] blockedMessage_nonempty[of q] lowScoreMessage_nonempty[of q]
    by (auto simp: searchComponents_start_def searchComponents_settle_def render_def truthy_def
        Let_def)
qed

text \<open>The theorem at the query \<open>" React  API "\<close> and at a response with one component
  of score 30.\<close>

theorem search_rejected_without_failure_witness:
  "list_all (\<lambda>w. w \<in> set obviouslyBadTerms) (split_ws (toLowerCase (trim '' React  API '')))
   \<and> searchComponents_start (initialPage '' React  API '') '' React  API ''
       = ((initialPage '' React  API '')
            \<lparr>isLoading := False, error := Some (blockedMessage '' React  API ''), components := []\<rparr>,
          None)
   \<and> nullish (or_num (spec_match ((sampleComponent ''1'' ''LM7805'' None)\<lparr>spec_match := Some 30\<rparr>))
          (Some 0)) 0 < 50
   \<and> render (searchComponents_settle (initialPage ''5V regulator'') ''5V regulator''
         (Inr [(sampleComponent ''1'' ''LM7805'' None)\<lparr>spec_match := Some 30\<rparr>]))
       = ErrorPanel (lowScoreMessage ''5V regulator'')
   \<and> components (searchComponents_settle (initialPage ''5V regulator'') ''5V regulator''
         (Inr [(sampleComponent ''1'' ''LM7805'' None)\<lparr>spec_match := Some 30\<rparr>])) = []"
proof -
  have h1: "list_all (\<lambda>w. w \<in> set obviouslyBadTerms)
              (split_ws (toLowerCase (trim '' React  API '')))"
    by code_simp
  have h2: "\<forall>c \<in> set [(sampleComponent ''1'' ''LM7805'' None)\<lparr>spec_match := Some 30\<rparr>].
          nullish (or_num (spec_match c) (Some 0)) 0 < 50"
    by (simp add: sampleComponent_def or_num_def nullish_def)
  have h3: "[(sampleComponent ''1'' ''LM7805'' None)\<lparr>spec_match := Some 30\<rparr>] \<noteq> []"
    by simp
  from h1 search_rejected_without_failure [where q = "'' React  API ''"
         and s = "initialPage '' React  API ''"]
  have a: "searchComponents_start (initialPage '' React  API '') '' React  API ''
       = ((initialPage '' React  API '')
            \<lparr>isLoading := False, error := Some (blockedMessage '' React  API ''), components := []\<rparr>,
          None)"
    by blast
  from h2 h3 search_rejected_without_failure [where q = "''5V regulator''"
         and s = "initialPage ''5V regulator''"
         and cs = "[(sampleComponent ''1'' ''LM7805'' None)\<lparr>spec_match := Some 30\<rparr>]"]
  have b: "searchComponents_settle (initialPage ''5V regulator'') ''5V regulator''
             (Inr [(sampleComponent ''1'' ''LM7805'' None)\<lparr>spec_match := Some 30\<rparr>])
           = (initialPage ''5V regulator'')
               \<lparr>error := Some (lowScoreMessage ''5V regulator''), components := [],
                isLoading := False\<rparr>
         \<and> render (searchComponents_settle (initialPage ''5V regulator'') ''5V regulator''
             (Inr [(sampleComponent ''1'' ''LM7805'' None)\<lparr>spec_match := Some 30\<rparr>]))
           = ErrorPanel (lowScoreMessage ''5V regulator'')"
    by blast
  then have c: "components (searchComponents_settle (initialPage ''5V regulator'') ''5V regulator''
         (Inr [(sampleComponent ''1'' ''LM7805'' None)\<lparr>spec_match := Some 30\<rparr>])) = []"
    by simp
  from h2 have h4: "nullish (or_num (spec_match ((sampleComponent ''1'' ''LM7805'' None)\<lparr>spec_match := Some 30\<rparr>))
          (Some 0)) 0 < 50"
    by simp
  from h1 h4 a b c show ?thesis by blast
qed

text \<open>
  C8. When the request of a search for the current query is rejected, the error message
  is set (the message of the \<open>Error\<close>, or a fixed sentence), the result list is emptied
  and the loading flag is cleared; the rejection ends there, as a page state. When the
  message is shown (it is not empty), the page renders the error panel, and its retry
  button sends the search for the same query again.
\<close>

theorem search_failure_handled:
  assumes "k < length (searching s)"
    and "searching s ! k = query (pageState s)"
    and "isValidElectronicsQuery (query (pageState s))"
  shows "error (pageState (step s (RecommendSettled k (Inl err))))
           = Some (case err of ErrorObject m \<Rightarrow> m | OtherValue \<Rightarrow> ''Search failed. Please try again.'')
       \<and> components (pageState (step s (RecommendSettled k (Inl err)))) = []
       \<and> isLoading (pageState (step s (RecommendSettled k (Inl err)))) = False
       \<and> (truthy (error (pageState (step s (RecommendSettled k (Inl err))))) \<longrightarrow>
            render (pageState (step s (RecommendSettled k (Inl err))))
              = ErrorPanel (case err of ErrorObject m \<Rightarrow> m
                            | OtherValue \<Rightarrow> ''Search failed. Please try again.'')
          \<and> searching (step (step s (RecommendSettled k (Inl err))) RetryClicked)
              = removeAt k (searching s) @ [query (pageState s)])"
  using assms
  by (simp add: step_def remount_def searchComponents_settle_def render_def retry_def
      startSearch_def searchComponents_start_def optionList_def Let_def)

text \<open>The theorem at a search for \<open>5V regulator\<close> whose request fails with
  \<open>Failed to fetch\<close>.\<close>

theorem search_failure_handled_witness:
  "0 < length (searching (step (mountPage []) (SearchSubmitted ''5V regulator'')))
   \<and> searching (step (mountPage []) (SearchSubmitted ''5V regulator'')) ! 0
       = query (pageState (step (mountPage []) (SearchSubmitted ''5V regulator'')))
   \<and> isValidElectronicsQuery
         (query (pageState (step (mountPage []) (SearchSubmitted ''5V regulator''))))
   \<and> render (pageState (step (step (mountPage []) (SearchSubmitted ''5V regulator''))
         (RecommendSettled 0 (Inl (ErrorObject ''Failed to fetch'')))))
       = ErrorPanel ''Failed to fetch''
   \<and> components (pageState (step (step (mountPage []) (SearchSubmitted ''5V regulator''))
         (RecommendSettled 0 (Inl (ErrorObject ''Failed to fetch''))))) = []
   \<and> searching (step (step (step (mountPage []) (SearchSubmitted ''5V regulator''))
         (RecommendSettled 0 (Inl (ErrorObject ''Failed to fetch'')))) RetryClicked)
       = [''5V regulator'']"
proof -
  let ?s = "step (mountPage []) (SearchSubmitted ''5V regulator'')"
  have v: "isValidElectronicsQuery ''5V regulator''" by code_simp
  have q: "query (pageState ?s) = ''5V regulator''" and l: "searching ?s = [''5V regulator'']"
    using v
    by (simp_all add: step_def remount_def handleSearch_def startSearch_def mountPage_def
        initialSystem_def
        initialPage_def searchComponents_start_def optionList_def Let_def)
  have h1: "0 < length (searching ?s)" and h2: "searching ?s ! 0 = query (pageState ?s)"
    and h3: "isValidElectronicsQuery (query (pageState ?s))"
    using q l v by simp_all
  show ?thesis
    using h1 h2 h3 l q
      search_failure_handled [OF h1 h2 h3, of "ErrorObject ''Failed to fetch''"]
    by (simp add: truthy_def removeAt_def)
qed

subsection \<open>Claims on explanations\<close>

text \<open>
  C9. When the explanation request for a component of the result set fails, the entry
  of its identifier becomes the fallback sentence, built from the part number, the
  manufacturer and the lower-cased category of that component and from the query; the
  rest of the page state is left as it is, and the entry is a truthy string, so the row
  no longer shows the loading line.
\<close>

theorem explain_failure_fallback:
  assumes "find (\<lambda>c. id' c = cid) (components s) = Some c"
    and "\<not> truthy (explanations s cid)"
  shows "handleExplain s cid = (s, Some \<lparr>componentId = cid, component = c, ex_query = query s\<rparr>)
       \<and> c \<in> set (components s) \<and> id' c = cid
       \<and> handleExplain_settle s2 \<lparr>componentId = cid, component = c, ex_query = query s\<rparr> None
           = s2\<lparr>explanations := (explanations s2)(cid \<mapsto> fallbackExplanation c (query s))\<rparr>
       \<and> fallbackExplanation c (query s)
           = ''The '' @ or_str (part_number c) (partNumber c) @ '' from '' @ manufacturer c @
             '' is recommended as a '' @ or_str (Some (toLowerCase (category c))) ''component'' @
             '' component that matches your query '' @ [CHR 0x27] @ query s @ [CHR 0x27] @
             ''. This component has a high compatibility score based on your search criteria.''
       \<and> truthy (Some (fallbackExplanation c (query s)))"
proof -
  from assms(1) have "c \<in> set (components s) \<and> id' c = cid"
    by (auto simp: find_Some_iff)
  then show ?thesis using assms
    by (simp add: handleExplain_def handleExplain_settle_def fallbackExplanation_def truthy_def)
qed

text \<open>The theorem at the component \<open>LM7805\<close>, with a failure that arrives in a later
  page state.\<close>

theorem explain_failure_fallback_witness:
  "find (\<lambda>c. id' c = ''1'')
      (components ((initialPage ''5V'')\<lparr>components := [sampleComponent ''1'' ''LM7805'' None]\<rparr>))
     = Some (sampleComponent ''1'' ''LM7805'' None)
   \<and> \<not> truthy (explanations
          ((initialPage ''5V'')\<lparr>components := [sampleComponent ''1'' ''LM7805'' None]\<rparr>) ''1'')
   \<and> explanations (handleExplain_settle (initialPage ''12V'')
         \<lparr>componentId = ''1'', component = sampleComponent ''1'' ''LM7805'' None, ex_query = ''5V''\<rparr>
         None) ''1''
       = Some (''The LM7805 from Texas Instruments is recommended as a voltage regulator'' @
               '' component that matches your query '' @ [CHR 0x27] @ ''5V'' @ [CHR 0x27] @
               ''. This component has a high compatibility score based on your search criteria.'')"
proof -
  let ?s = "(initialPage ''5V'')\<lparr>components := [sampleComponent ''1'' ''LM7805'' None]\<rparr>"
  have h1: "find (\<lambda>c. id' c = ''1'') (components ?s) = Some (sampleComponent ''1'' ''LM7805'' None)"
    by (simp add: sampleComponent_def)
  have h2: "\<not> truthy (explanations ?s ''1'')"
    by (simp add: initialPage_def truthy_def)
  have q: "query ?s = ''5V''" by (simp add: initialPage_def)
  have t: "or_str (part_number (sampleComponent ''1'' ''LM7805'' None))
             (partNumber (sampleComponent ''1'' ''LM7805'' None)) = ''LM7805''"
    "manufacturer (sampleComponent ''1'' ''LM7805'' None) = ''Texas Instruments''"
    by (simp_all add: sampleComponent_def or_str_def truthy_def)
  have t2: "or_str (Some (toLowerCase (category (sampleComponent ''1'' ''LM7805'' None))))
              ''component'' = ''voltage regulator''"
    by code_simp
  show ?thesis
    using h1 h2 explain_failure_fallback [OF h1 h2, of "initialPage ''12V''"] q t t2
    by simp
qed

subsection \<open>The system: frame lemmas and invariants\<close>

lemma pageState_remount [simp]: "pageState (remount s) = pageState s"
  by (simp add: remount_def)

lemma sent_remount [simp]: "sent (remount s) = sent s"
  by (simp add: remount_def)

lemma inflight_remount [simp]: "inflight (remount s) = inflight s"
  by (simp add: remount_def)

lemma searching_remount [simp]: "searching (remount s) = searching s"
  by (simp add: remount_def)

lemma explanations_start [simp]:
  "explanations (fst (searchComponents_start p q)) = explanations p"
  by (simp add: searchComponents_start_def Let_def)

lemma explanations_search_settle [simp]:
  "explanations (searchComponents_settle p q outcome) = explanations p"
  by (simp add: searchComponents_settle_def split: sum.splits)

lemma explanations_startSearch [simp]:
  "explanations (pageState (startSearch s q)) = explanations (pageState s)"
  by (simp add: startSearch_def split_beta)

lemma sent_startSearch [simp]: "sent (startSearch s q) = sent s"
  by (simp add: startSearch_def split_beta)

lemma inflight_startSearch [simp]: "inflight (startSearch s q) = inflight s"
  by (simp add: startSearch_def split_beta)

lemma explanations_handleSearch [simp]:
  "explanations (pageState (handleSearch s q)) = explanations (pageState s)"
  by (simp add: handleSearch_def Let_def)

lemma sent_handleSearch [simp]: "sent (handleSearch s q) = sent s"
  by (simp add: handleSearch_def Let_def)

lemma inflight_handleSearch [simp]: "inflight (handleSearch s q) = inflight s"
  by (simp add: handleSearch_def Let_def)

lemma correctedExplanation_nonempty: "correctedExplanation c q \<noteq> []"
  by (simp add: correctedExplanation_def)

lemma fallbackExplanation_nonempty: "fallbackExplanation c q \<noteq> []"
  by (simp add: fallbackExplanation_def)

lemma explanations_explain_settle:
  "explanations (handleExplain_settle p r resp) =
     (explanations p)(componentId r \<mapsto>
        (case resp of Some text \<Rightarrow> correctedExplanation (component r) (ex_query r)
         | None \<Rightarrow> fallbackExplanation (component r) (ex_query r)))"
  by (simp add: handleExplain_settle_def split: option.splits)

lemma toggleRow_cases:
  "toggleRow t p rid = (t', p', r) \<Longrightarrow>
     (r = None \<and> (p' = p \<or> (\<not> truthy (explanations p rid) \<and>
          p' = p\<lparr>explanations := (explanations p)(rid \<mapsto> notAvailable)\<rparr>)))
   \<or> (p' = p \<and> rid \<notin> expandedRows t \<and> \<not> truthy (explanations p rid) \<and>
        (\<exists>c. find (\<lambda>c. id' c = rid) (components p) = Some c \<and>
             r = Some \<lparr>componentId = rid, component = c, ex_query = query p\<rparr>))"
  by (auto simp: toggleRow_def handleExplain_def split: if_splits option.splits)

lemma notAvailable_nonempty: "notAvailable \<noteq> []"
  by (simp add: notAvailable_def)

lemma clickRow_truthy:
  assumes "truthy (explanations (pageState s) cid)"
  shows "truthy (explanations (pageState (clickRow s rid)) cid)"
proof -
  obtain t p r where tr: "toggleRow (tableState s) (pageState s) rid = (t, p, r)"
    by (cases "toggleRow (tableState s) (pageState s) rid") auto
  from toggleRow_cases[OF tr] assms have "truthy (explanations p cid)"
    by (auto simp: truthy_def notAvailable_nonempty)
  then show ?thesis using tr by (simp add: clickRow_def)
qed

lemma clickRow_requestsFor:
  assumes "truthy (explanations (pageState s) cid)"
  shows "requestsFor cid (clickRow s rid) = requestsFor cid s"
proof -
  obtain t p r where tr: "toggleRow (tableState s) (pageState s) rid = (t, p, r)"
    by (cases "toggleRow (tableState s) (pageState s) rid") auto
  from toggleRow_cases[OF tr] assms
  have "filter (\<lambda>r. componentId r = cid) (optionList r) = []"
    by (auto simp: optionList_def)
  then show ?thesis using tr by (simp add: clickRow_def requestsFor_def)
qed

lemma step_truthy:
  assumes "truthy (explanations (pageState s) cid)"
  shows "truthy (explanations (pageState (step s e)) cid)"
proof (cases e)
  case (RowClicked rid)
  then show ?thesis using assms clickRow_truthy[OF assms, of rid] by (simp add: step_def)
next
  case (ExplainSettled k resp)
  then show ?thesis using assms
    by (auto simp: step_def explanations_explain_settle truthy_def
        correctedExplanation_nonempty fallbackExplanation_nonempty split: option.splits)
qed (use assms in \<open>simp_all add: step_def retry_def\<close>)

lemma step_requestsFor:
  assumes "truthy (explanations (pageState s) cid)"
  shows "requestsFor cid (step s e) = requestsFor cid s"
proof (cases e)
  case (RowClicked rid)
  then show ?thesis using clickRow_requestsFor[OF assms, of rid]
    by (simp add: step_def requestsFor_def)
qed (simp_all add: step_def requestsFor_def retry_def)

lemma run_requestsFor:
  "truthy (explanations (pageState s) cid) \<Longrightarrow> requestsFor cid (run s evs) = requestsFor cid s"
  unfolding run_def
proof (induction evs arbitrary: s)
  case Nil
  then show ?case by simp
next
  case (Cons e evs)
  from Cons.prems have "truthy (explanations (pageState (step s e)) cid)" by (rule step_truthy)
  from Cons.IH[OF this] step_requestsFor[OF Cons.prems, of e] show ?case by simp
qed

lemma click_sends:
  "sent (step s (RowClicked rid)) \<noteq> sent s \<Longrightarrow>
     rid \<notin> expandedRows (tableState s) \<and> \<not> truthy (explanations (pageState s) rid)
   \<and> (\<exists>c. find (\<lambda>c. id' c = rid) (components (pageState s)) = Some c
        \<and> sent (step s (RowClicked rid))
            = \<lparr>componentId = rid, component = c, ex_query = query (pageState s)\<rparr> # sent s)"
proof -
  assume a: "sent (step s (RowClicked rid)) \<noteq> sent s"
  obtain t p r where tr: "toggleRow (tableState s) (pageState s) rid = (t, p, r)"
    by (cases "toggleRow (tableState s) (pageState s) rid") auto
  from a have g: "sent (clickRow s rid) \<noteq> sent s" and e: "step s (RowClicked rid) = remount (clickRow s rid)"
    by (auto simp: step_def split: if_splits)
  from g tr have "r \<noteq> None" by (cases r) (auto simp: clickRow_def optionList_def)
  with toggleRow_cases[OF tr] show ?thesis using e tr
    by (auto simp: clickRow_def optionList_def)
qed

lemma cacheInvariant_initial: "cacheInvariant (initialSystem q)"
  by (simp add: cacheInvariant_def initialSystem_def initialPage_def)

lemma cacheInvariant_mountPage: "cacheInvariant (mountPage q)"
  by (simp add: cacheInvariant_def mountPage_def initialSystem_def initialPage_def)

lemma cacheInvariant_remount: "cacheInvariant (remount s) = cacheInvariant s"
  by (simp add: cacheInvariant_def)

lemma cacheInvariant_frame:
  "explanations (pageState s') = explanations (pageState s) \<Longrightarrow> sent s' = sent s
     \<Longrightarrow> inflight s' = inflight s \<Longrightarrow> cacheInvariant s \<Longrightarrow> cacheInvariant s'"
  by (simp add: cacheInvariant_def)

lemma find_id: "find (\<lambda>c. id' c = rid) cs = Some c \<Longrightarrow> id' c = rid"
  by (auto simp: find_Some_iff)

lemma cacheInvariant_clickRow:
  assumes "cacheInvariant s"
  shows "cacheInvariant (clickRow s rid)"
proof -
  obtain t p r where tr: "toggleRow (tableState s) (pageState s) rid = (t, p, r)"
    by (cases "toggleRow (tableState s) (pageState s) rid") auto
  have eq: "clickRow s rid = s\<lparr>tableState := t, pageState := p, inflight := inflight s @ optionList r,
           sent := optionList r @ sent s\<rparr>"
    using tr by (simp add: clickRow_def)
  from toggleRow_cases[OF tr] show ?thesis
  proof (elim disjE conjE exE)
    assume "r = None" "p = pageState s"
    then show ?thesis using assms eq by (simp add: cacheInvariant_def optionList_def)
  next
    assume "r = None" "p = (pageState s)\<lparr>explanations := (explanations (pageState s))(rid \<mapsto> notAvailable)\<rparr>"
    then show ?thesis using assms eq
      by (auto simp: cacheInvariant_def optionList_def)
  next
    fix c
    assume "p = pageState s" "find (\<lambda>c. id' c = rid) (components (pageState s)) = Some c"
      "r = Some \<lparr>componentId = rid, component = c, ex_query = query (pageState s)\<rparr>"
    then show ?thesis using assms eq find_id[of rid "components (pageState s)" c]
      by (auto simp: cacheInvariant_def optionList_def)
  qed
qed

lemma set_removeAt: "set (removeAt k xs) \<subseteq> set xs"
  by (auto simp: removeAt_def dest: in_set_takeD in_set_dropD)

lemma cacheInvariant_explainSettled:
  assumes "cacheInvariant s" "k < length (inflight s)"
  shows "cacheInvariant (s\<lparr>pageState := handleExplain_settle (pageState s) (inflight s ! k) resp,
                           inflight := removeAt k (inflight s)\<rparr>)"
proof -
  let ?r = "inflight s ! k"
  have r: "?r \<in> set (sent s)" using assms by (auto simp: cacheInvariant_def)
  have 1: "set (removeAt k (inflight s)) \<subseteq> set (sent s)"
    using assms(1) set_removeAt[of k "inflight s"] by (auto simp: cacheInvariant_def)
  have 2: "\<forall>r \<in> set (sent s). id' (component r) = componentId r"
    using assms(1) by (simp add: cacheInvariant_def)
  have 3: "\<And>j v. ((explanations (pageState s))(componentId ?r \<mapsto>
        (case resp of Some text \<Rightarrow> correctedExplanation (component ?r) (ex_query ?r)
         | None \<Rightarrow> fallbackExplanation (component ?r) (ex_query ?r)))) j = Some v \<Longrightarrow>
             v = notAvailable
             \<or> (\<exists>r \<in> set (sent s). componentId r = j
                  \<and> (v = correctedExplanation (component r) (ex_query r)
                     \<or> v = fallbackExplanation (component r) (ex_query r)))"
  proof -
    fix j v
    assume a: "((explanations (pageState s))(componentId ?r \<mapsto>
        (case resp of Some text \<Rightarrow> correctedExplanation (component ?r) (ex_query ?r)
         | None \<Rightarrow> fallbackExplanation (component ?r) (ex_query ?r)))) j = Some v"
    show "v = notAvailable
             \<or> (\<exists>r \<in> set (sent s). componentId r = j
                  \<and> (v = correctedExplanation (component r) (ex_query r)
                     \<or> v = fallbackExplanation (component r) (ex_query r)))"
    proof (cases "j = componentId ?r")
      case True
      with a have "v = correctedExplanation (component ?r) (ex_query ?r)
                 \<or> v = fallbackExplanation (component ?r) (ex_query ?r)"
        by (cases resp) auto
      with r True show ?thesis by blast
    next
      case False
      with a have "explanations (pageState s) j = Some v" by simp
      with assms(1) show ?thesis unfolding cacheInvariant_def by blast
    qed
  qed
  show ?thesis
    unfolding cacheInvariant_def using 1 2 3
    by (simp add: explanations_explain_settle)
qed

lemma cacheInvariant_step: "cacheInvariant s \<Longrightarrow> cacheInvariant (step s e)"
proof (cases e)
  case (RowClicked rid)
  assume "cacheInvariant s"
  then show ?thesis using RowClicked cacheInvariant_clickRow[of s rid]
    by (simp add: step_def cacheInvariant_remount)
next
  case (HeaderClicked f)
  assume "cacheInvariant s"
  then show ?thesis using HeaderClicked
    by (simp add: step_def cacheInvariant_remount cacheInvariant_def)
next
  case (SearchSubmitted nq)
  assume "cacheInvariant s"
  then show ?thesis using SearchSubmitted cacheInvariant_frame[of "handleSearch s nq" s]
    by (simp add: step_def cacheInvariant_remount)
next
  case RetryClicked
  assume "cacheInvariant s"
  then show ?thesis using RetryClicked cacheInvariant_frame[of "startSearch s (query (pageState s))" s]
    by (simp add: step_def cacheInvariant_remount retry_def)
next
  case (ExplainSettled k resp)
  assume "cacheInvariant s"
  then show ?thesis using ExplainSettled cacheInvariant_explainSettled[of s k resp]
    by (simp add: step_def cacheInvariant_remount)
next
  case (RecommendSettled k outcome)
  assume "cacheInvariant s"
  then show ?thesis using RecommendSettled
    by (simp add: step_def cacheInvariant_remount cacheInvariant_def)
qed

lemma cacheInvariant_run: "cacheInvariant s \<Longrightarrow> cacheInvariant (run s evs)"
  unfolding run_def by (induction evs arbitrary: s) (simp_all add: cacheInvariant_step)

lemma explanations_step_search:
  "explanations (pageState (step s (SearchSubmitted nq))) = explanations (pageState s)"
  "explanations (pageState (step s RetryClicked)) = explanations (pageState s)"
  "explanations (pageState (step s (RecommendSettled k outcome))) = explanations (pageState s)"
  by (simp_all add: step_def retry_def)

lemma step_keeps_entry:
  assumes "explanations (pageState s) cid \<noteq> None"
  shows "explanations (pageState (step s e)) cid \<noteq> None"
proof (cases e)
  case (RowClicked rid)
  obtain t p r where tr: "toggleRow (tableState s) (pageState s) rid = (t, p, r)"
    by (cases "toggleRow (tableState s) (pageState s) rid") auto
  from toggleRow_cases[OF tr] assms have "explanations p cid \<noteq> None" by auto
  then show ?thesis using RowClicked tr assms by (simp add: step_def clickRow_def)
next
  case (ExplainSettled k resp)
  then show ?thesis using assms by (simp add: step_def explanations_explain_settle)
qed (use assms in \<open>simp_all add: step_def retry_def\<close>)

subsection \<open>Claims on the explanation cache\<close>

text \<open>
  C1 (amended). A click on a row sends an explanation request only if the row was
  collapsed and its identifier has no explanation yet, and then it sends exactly one,
  for that identifier. Once an identifier has an explanation (a request for it was
  answered or failed, both of which store a text), the entry stays and no sequence of
  events sends another request for it. Nothing is promised while a request is
  outstanding.
\<close>

theorem explain_requests_deduplicated:
  "(sent (step s (RowClicked rid)) \<noteq> sent s \<longrightarrow>
      rid \<notin> expandedRows (tableState s) \<and> \<not> truthy (explanations (pageState s) rid)
      \<and> (\<exists>c. find (\<lambda>c. id' c = rid) (components (pageState s)) = Some c
           \<and> sent (step s (RowClicked rid))
               = \<lparr>componentId = rid, component = c, ex_query = query (pageState s)\<rparr> # sent s))
   \<and> (truthy (explanations (pageState s) cid) \<longrightarrow>
        truthy (explanations (pageState (run s evs)) cid)
        \<and> requestsFor cid (run s evs) = requestsFor cid s)"
proof -
  have "truthy (explanations (pageState s) cid) \<Longrightarrow> truthy (explanations (pageState (run s evs)) cid)"
    unfolding run_def by (induction evs arbitrary: s) (simp_all add: step_truthy)
  then show ?thesis using click_sends[of s rid] run_requestsFor[of s cid evs] by blast
qed

text \<open>The theorem at a result list of one component: the first click sends a request,
  and after its answer three more clicks send none.\<close>

theorem explain_requests_deduplicated_witness:
  "sent (step (run (mountPage [])
        [SearchSubmitted ''5V regulator'',
         RecommendSettled 0 (Inr [sampleComponent ''1'' ''LM7805'' None])]) (RowClicked ''1''))
     \<noteq> sent (run (mountPage [])
        [SearchSubmitted ''5V regulator'',
         RecommendSettled 0 (Inr [sampleComponent ''1'' ''LM7805'' None])])
   \<and> \<not> truthy (explanations (pageState (run (mountPage [])
        [SearchSubmitted ''5V regulator'',
         RecommendSettled 0 (Inr [sampleComponent ''1'' ''LM7805'' None])])) ''1'')
   \<and> truthy (explanations (pageState (run (mountPage [])
        [SearchSubmitted ''5V regulator'',
         RecommendSettled 0 (Inr [sampleComponent ''1'' ''LM7805'' None]),
         RowClicked ''1'', ExplainSettled 0 (Some ''ok'')])) ''1'')
   \<and> length (requestsFor ''1'' (run (run (mountPage [])
        [SearchSubmitted ''5V regulator'',
         RecommendSettled 0 (Inr [sampleComponent ''1'' ''LM7805'' None]),
         RowClicked ''1'', ExplainSettled 0 (Some ''ok'')])
        [RowClicked ''1'', RowClicked ''1'', RowClicked ''1''])) = 1"
proof -
  let ?a = "run (mountPage [])
        [SearchSubmitted ''5V regulator'',
         RecommendSettled 0 (Inr [sampleComponent ''1'' ''LM7805'' None])]"
  let ?b = "run (mountPage [])
        [SearchSubmitted ''5V regulator'',
         RecommendSettled 0 (Inr [sampleComponent ''1'' ''LM7805'' None]),
         RowClicked ''1'', ExplainSettled 0 (Some ''ok'')]"
  have h1: "sent (step ?a (RowClicked ''1'')) \<noteq> sent ?a" by code_simp
  have h2: "truthy (explanations (pageState ?b) ''1'')" by code_simp
  have n: "length (requestsFor ''1'' ?b) = 1" by code_simp
  from h1 explain_requests_deduplicated [where s = ?a and rid = "''1''"]
  have c1: "\<not> truthy (explanations (pageState ?a) ''1'')" by blast
  from h2 explain_requests_deduplicated [where s = ?b and cid = "''1''"
      and evs = "[RowClicked ''1'', RowClicked ''1'', RowClicked ''1'']"]
  have "requestsFor ''1'' (run ?b [RowClicked ''1'', RowClicked ''1'', RowClicked ''1''])
          = requestsFor ''1'' ?b" by blast
  with n have c2: "length (requestsFor ''1''
          (run ?b [RowClicked ''1'', RowClicked ''1'', RowClicked ''1''])) = 1" by simp
  from h1 h2 c1 c2 show ?thesis by blast
qed

text \<open>
  C1 as stated fails: expanding, collapsing and expanding a row again before the first
  request has settled sends a second request for the same identifier.
\<close>

theorem duplicate_request_counterexample:
  "map componentId
     (inflight (run (mountPage [])
        [SearchSubmitted ''5V regulator'',
         RecommendSettled 0 (Inr [sampleComponent ''1'' ''LM7805'' None]),
         RowClicked ''1'', RowClicked ''1'', RowClicked ''1'']))
   = [''1'', ''1'']
   \<and> length (requestsFor ''1'' (run (mountPage [])
        [SearchSubmitted ''5V regulator'',
         RecommendSettled 0 (Inr [sampleComponent ''1'' ''LM7805'' None]),
         RowClicked ''1'', RowClicked ''1'', RowClicked ''1''])) = 2"
  by code_simp

text \<open>
  C2 (amended). No search event changes the explanation cache: submitting a query,
  retrying and the arrival of a search response leave every entry in place, and no
  event of any kind removes an entry. A response to an explanation request is stored
  under the identifier it was requested for in whatever state it arrives, with the
  query of the time of the request.
\<close>

theorem explanation_cache_kept_across_searches:
  "explanations (pageState (step s (SearchSubmitted nq))) = explanations (pageState s)
   \<and> explanations (pageState (step s RetryClicked)) = explanations (pageState s)
   \<and> explanations (pageState (step s (RecommendSettled k outcome))) = explanations (pageState s)
   \<and> (explanations (pageState s) cid \<noteq> None \<longrightarrow>
        explanations (pageState (run s evs)) cid \<noteq> None)
   \<and> (j < length (inflight s) \<longrightarrow>
        explanations (pageState (step s (ExplainSettled j resp))) (componentId (inflight s ! j))
          = Some (case resp of
                    Some text \<Rightarrow> correctedExplanation (component (inflight s ! j)) (ex_query (inflight s ! j))
                  | None \<Rightarrow> fallbackExplanation (component (inflight s ! j)) (ex_query (inflight s ! j))))"
proof -
  have "explanations (pageState s) cid \<noteq> None \<Longrightarrow> explanations (pageState (run s evs)) cid \<noteq> None"
    unfolding run_def
  proof (induction evs arbitrary: s)
    case Nil
    then show ?case by simp
  next
    case (Cons e evs)
    from Cons.prems have "explanations (pageState (step s e)) cid \<noteq> None"
      by (rule step_keeps_entry)
    from Cons.IH[OF this] show ?case by simp
  qed
  then show ?thesis
    by (simp add: explanations_step_search) (simp add: step_def explanations_explain_settle)
qed

text \<open>The theorem at an entry for component \<open>1\<close> that survives a search whose result
  list holds component \<open>2\<close> only.\<close>

theorem explanation_cache_kept_witness:
  "explanations (pageState (run (mountPage [])
        [SearchSubmitted ''5V regulator'',
         RecommendSettled 0 (Inr [sampleComponent ''1'' ''LM7805'' None]),
         RowClicked ''1'', ExplainSettled 0 (Some ''ok'')])) ''1'' \<noteq> None
   \<and> explanations (pageState (run (run (mountPage [])
        [SearchSubmitted ''5V regulator'',
         RecommendSettled 0 (Inr [sampleComponent ''1'' ''LM7805'' None]),
         RowClicked ''1'', ExplainSettled 0 (Some ''ok'')])
        [SearchSubmitted ''LED'',
         RecommendSettled 0 (Inr [sampleComponent ''2'' ''LM317'' None])])) ''1'' \<noteq> None
   \<and> map id' (components (pageState (run (run (mountPage [])
        [SearchSubmitted ''5V regulator'',
         RecommendSettled 0 (Inr [sampleComponent ''1'' ''LM7805'' None]),
         RowClicked ''1'', ExplainSettled 0 (Some ''ok'')])
        [SearchSubmitted ''LED'',
         RecommendSettled 0 (Inr [sampleComponent ''2'' ''LM317'' None])]))) = [''2'']"
proof -
  let ?s = "run (mountPage [])
        [SearchSubmitted ''5V regulator'',
         RecommendSettled 0 (Inr [sampleComponent ''1'' ''LM7805'' None]),
         RowClicked ''1'', ExplainSettled 0 (Some ''ok'')]"
  let ?evs = "[SearchSubmitted ''LED'',
         RecommendSettled 0 (Inr [sampleComponent ''2'' ''LM317'' None])]"
  have h: "explanations (pageState ?s) ''1'' \<noteq> None" by code_simp
  have c: "map id' (components (pageState (run ?s ?evs))) = [''2'']" by code_simp
  from h explanation_cache_kept_across_searches [where s = ?s and cid = "''1''" and evs = ?evs]
  have "explanations (pageState (run ?s ?evs)) ''1'' \<noteq> None" by blast
  with h c show ?thesis by blast
qed

text \<open>
  C2 as stated fails: after the query has changed to \<open>LED\<close> and the result list holds
  component \<open>2\<close> only, the cache still has the entry of component \<open>1\<close>, and the answer
  for component \<open>3\<close>, requested under the old query and arriving last, is stored as well.
\<close>

theorem explanation_cache_counterexample:
  "map id' (components (pageState (run (mountPage [])
        [SearchSubmitted ''5V regulator'',
         RecommendSettled 0 (Inr [sampleComponent ''1'' ''LM7805'' None,
                                  sampleComponent ''3'' ''AMS1117'' None]),
         RowClicked ''1'', ExplainSettled 0 (Some ''ok''), RowClicked ''3'',
         SearchSubmitted ''LED'',
         RecommendSettled 0 (Inr [sampleComponent ''2'' ''LM317'' None]),
         ExplainSettled 0 (Some ''ok'')]))) = [''2'']
   \<and> query (pageState (run (mountPage [])
        [SearchSubmitted ''5V regulator'',
         RecommendSettled 0 (Inr [sampleComponent ''1'' ''LM7805'' None,
                                  sampleComponent ''3'' ''AMS1117'' None]),
         RowClicked ''1'', ExplainSettled 0 (Some ''ok''), RowClicked ''3'',
         SearchSubmitted ''LED'',
         RecommendSettled 0 (Inr [sampleComponent ''2'' ''LM317'' None]),
         ExplainSettled 0 (Some ''ok'')])) = ''LED''
   \<and> explanations (pageState (run (mountPage [])
        [SearchSubmitted ''5V regulator'',
         RecommendSettled 0 (Inr [sampleComponent ''1'' ''LM7805'' None,
                                  sampleComponent ''3'' ''AMS1117'' None]),
         RowClicked ''1'', ExplainSettled 0 (Some ''ok''), RowClicked ''3'',
         SearchSubmitted ''LED'',
         RecommendSettled 0 (Inr [sampleComponent ''2'' ''LM317'' None]),
         ExplainSettled 0 (Some ''ok'')])) ''1''
       = Some (correctedExplanation (sampleComponent ''1'' ''LM7805'' None) ''5V regulator'')
   \<and> explanations (pageState (run (mountPage [])
        [SearchSubmitted ''5V regulator'',
         RecommendSettled 0 (Inr [sampleComponent ''1'' ''LM7805'' None,
                                  sampleComponent ''3'' ''AMS1117'' None]),
         RowClicked ''1'', ExplainSettled 0 (Some ''ok''), RowClicked ''3'',
         SearchSubmitted ''LED'',
         RecommendSettled 0 (Inr [sampleComponent ''2'' ''LM317'' None]),
         ExplainSettled 0 (Some ''ok'')])) ''3''
       = Some (correctedExplanation (sampleComponent ''3'' ''AMS1117'' None) ''5V regulator'')"
  by code_simp

text \<open>
  C5. In every state reached from the initial one, an entry of the explanation cache
  other than the fixed sentence was built for a request for the entry's own identifier,
  from the component that has this identifier. An answer changes the entry of the
  identifier of its own request and no other, whichever outstanding request it belongs
  to, so the order in which answers arrive does not matter.
\<close>

theorem explanation_attributed_to_requested_component:
  "(explanations (pageState (run (mountPage q) evs)) k = Some v \<longrightarrow>
      v = notAvailable
      \<or> (\<exists>r \<in> set (sent (run (mountPage q) evs)).
            componentId r = k \<and> id' (component r) = k
            \<and> (v = correctedExplanation (component r) (ex_query r)
               \<or> v = fallbackExplanation (component r) (ex_query r))))
   \<and> (j < length (inflight s) \<longrightarrow>
        explanations (pageState (step s (ExplainSettled j resp)))
          = (explanations (pageState s))(componentId (inflight s ! j) \<mapsto>
              (case resp of
                 Some text \<Rightarrow> correctedExplanation (component (inflight s ! j)) (ex_query (inflight s ! j))
               | None \<Rightarrow> fallbackExplanation (component (inflight s ! j)) (ex_query (inflight s ! j)))))"
proof -
  have "cacheInvariant (run (mountPage q) evs)"
    by (rule cacheInvariant_run) (rule cacheInvariant_mountPage)
  then have a: "explanations (pageState (run (mountPage q) evs)) k = Some v \<longrightarrow>
      v = notAvailable
      \<or> (\<exists>r \<in> set (sent (run (mountPage q) evs)).
            componentId r = k \<and> id' (component r) = k
            \<and> (v = correctedExplanation (component r) (ex_query r)
               \<or> v = fallbackExplanation (component r) (ex_query r)))"
    unfolding cacheInvariant_def by blast
  have b: "j < length (inflight s) \<longrightarrow>
        explanations (pageState (step s (ExplainSettled j resp)))
          = (explanations (pageState s))(componentId (inflight s ! j) \<mapsto>
              (case resp of
                 Some text \<Rightarrow> correctedExplanation (component (inflight s ! j)) (ex_query (inflight s ! j))
               | None \<Rightarrow> fallbackExplanation (component (inflight s ! j)) (ex_query (inflight s ! j))))"
    by (simp add: step_def explanations_explain_settle)
  from a b show ?thesis by blast
qed

text \<open>The theorem at two requests answered in the reverse order, the first answer
  naming the other part.\<close>

theorem explanation_attributed_witness:
  "explanations (pageState (run (mountPage [])
        [SearchSubmitted ''5V regulator'',
         RecommendSettled 0 (Inr [sampleComponent ''1'' ''LM7805'' None,
                                  sampleComponent ''2'' ''LM317'' None]),
         RowClicked ''1'', RowClicked ''2'',
         ExplainSettled 1 (Some ''The LM7805 from Texas Instruments is a fine part.''),
         ExplainSettled 0 None])) ''2''
     = Some (correctedExplanation (sampleComponent ''2'' ''LM317'' None) ''5V regulator'')
   \<and> (\<exists>r \<in> set (sent (run (mountPage [])
        [SearchSubmitted ''5V regulator'',
         RecommendSettled 0 (Inr [sampleComponent ''1'' ''LM7805'' None,
                                  sampleComponent ''2'' ''LM317'' None]),
         RowClicked ''1'', RowClicked ''2'',
         ExplainSettled 1 (Some ''The LM7805 from Texas Instruments is a fine part.''),
         ExplainSettled 0 None])).
          componentId r = ''2'' \<and> id' (component r) = ''2''
          \<and> (correctedExplanation (sampleComponent ''2'' ''LM317'' None) ''5V regulator''
                = correctedExplanation (component r) (ex_query r)
             \<or> correctedExplanation (sampleComponent ''2'' ''LM317'' None) ''5V regulator''
                = fallbackExplanation (component r) (ex_query r)))
   \<and> explanations (pageState (run (mountPage [])
        [SearchSubmitted ''5V regulator'',
         RecommendSettled 0 (Inr [sampleComponent ''1'' ''LM7805'' None,
                                  sampleComponent ''2'' ''LM317'' None]),
         RowClicked ''1'', RowClicked ''2'',
         ExplainSettled 1 (Some ''The LM7805 from Texas Instruments is a fine part.''),
         ExplainSettled 0 None])) ''1''
     = Some (fallbackExplanation (sampleComponent ''1'' ''LM7805'' None) ''5V regulator'')"
proof -
  let ?s = "run (mountPage [])
        [SearchSubmitted ''5V regulator'',
         RecommendSettled 0 (Inr [sampleComponent ''1'' ''LM7805'' None,
                                  sampleComponent ''2'' ''LM317'' None]),
         RowClicked ''1'', RowClicked ''2'',
         ExplainSettled 1 (Some ''The LM7805 from Texas Instruments is a fine part.''),
         ExplainSettled 0 None]"
  let ?v = "correctedExplanation (sampleComponent ''2'' ''LM317'' None) ''5V regulator''"
  have h: "explanations (pageState ?s) ''2'' = Some ?v" by code_simp
  have h1: "explanations (pageState ?s) ''1''
     = Some (fallbackExplanation (sampleComponent ''1'' ''LM7805'' None) ''5V regulator'')"
    by code_simp
  have n: "?v \<noteq> notAvailable" by code_simp
  from h n explanation_attributed_to_requested_component
    [where q = "[]" and k = "''2''" and v = ?v and evs = "[SearchSubmitted ''5V regulator'',
         RecommendSettled 0 (Inr [sampleComponent ''1'' ''LM7805'' None,
                                  sampleComponent ''2'' ''LM317'' None]),
         RowClicked ''1'', RowClicked ''2'',
         ExplainSettled 1 (Some ''The LM7805 from Texas Instruments is a fine part.''),
         ExplainSettled 0 None]"]
  have "\<exists>r \<in> set (sent ?s). componentId r = ''2'' \<and> id' (component r) = ''2''
          \<and> (?v = correctedExplanation (component r) (ex_query r)
             \<or> ?v = fallbackExplanation (component r) (ex_query r))"
    by blast
  with h h1 show ?thesis by blast
qed

subsection \<open>\<open>toFixed\<close>\<close>

lemma isDigit_digitChar: "d < 10 \<Longrightarrow> isDigit (digitChar d)"
  by (simp add: isDigit_def digitChar_def)

lemma natToString_digits: "list_all isDigit (natToString n)"
proof (induction n rule: natToString.induct)
  case (1 n)
  show ?case
  proof (cases "n < 10")
    case True
    then show ?thesis by (subst natToString.simps) (simp add: isDigit_digitChar)
  next
    case False
    then show ?thesis using 1
      by (subst natToString.simps) (simp add: isDigit_digitChar)
  qed
qed

lemma not_digit: "\<not> isDigit (CHR ''.'')" "\<not> isDigit (CHR ''-'')" "isDigit (CHR ''0'')"
  by (simp_all add: isDigit_def)

lemma fixedFormat_parts:
  assumes "a \<noteq> []" "list_all isDigit a" "list_all isDigit b" "length b = f"
  shows "fixedFormat f (a @ ''.'' @ b)" "fixedFormat f (''-'' @ a @ ''.'' @ b)"
proof -
  obtain x xs where a: "a = x # xs" using assms(1) by (cases a) auto
  have x: "isDigit x" using assms(2) a by simp
  then have xm: "x \<noteq> CHR ''-''" using not_digit(2) by auto
  have tw: "takeWhile isDigit (a @ CHR ''.'' # b) = a"
    using assms(2) not_digit(1) by (simp add: takeWhile_append2 list_all_iff)
  have dw: "dropWhile isDigit (a @ CHR ''.'' # b) = CHR ''.'' # b"
    using assms(2) not_digit(1) by (simp add: dropWhile_append2 list_all_iff)
  show "fixedFormat f (a @ ''.'' @ b)"
    using tw dw assms xm a by (simp add: fixedFormat_def)
  show "fixedFormat f (''-'' @ a @ ''.'' @ b)"
    using tw dw assms by (simp add: fixedFormat_def)
qed

lemma toFixed_format:
  assumes "\<bar>x\<bar> < 10 ^ 21" "f \<noteq> 0"
  shows "fixedFormat f (toFixed nts f x)"
proof -
  define m where "m = natToString (nat \<lfloor>\<bar>x\<bar> * 10 ^ f + 1 / 2\<rfloor>)"
  define m2 where "m2 = (if length m \<le> f then replicate (f + 1 - length m) (CHR ''0'') @ m else m)"
  have md: "list_all isDigit m" and mn: "m \<noteq> []"
    by (simp_all add: m_def natToString_digits natToString_nonempty)
  have m2d: "list_all isDigit m2" using md not_digit(3) by (simp add: m2_def list_all_iff)
  have len: "f < length m2" by (simp add: m2_def)
  have a: "take (length m2 - f) m2 \<noteq> []" using len by (cases m2) auto
  have ad: "list_all isDigit (take (length m2 - f) m2)"
    using m2d by (auto simp: list_all_iff dest: in_set_takeD)
  have bd: "list_all isDigit (drop (length m2 - f) m2)"
    using m2d by (auto simp: list_all_iff dest: in_set_dropD)
  have bl: "length (drop (length m2 - f) m2) = f" using len by simp
  have eq: "toFixed nts f x =
      (if x < 0 then ''-'' else '''') @ take (length m2 - f) m2 @ ''.'' @ drop (length m2 - f) m2"
    using assms by (simp add: toFixed_def Let_def m_def m2_def not_le)
  show ?thesis
    using fixedFormat_parts[OF a ad bd bl] by (simp add: eq)
qed

lemma digitsValue_snoc: "digitsValue (ds @ [c]) = 10 * digitsValue ds + (of_char c - 48)"
  by (simp add: digitsValue_def)

lemma digitsValue_digitChar: "d < 10 \<Longrightarrow> (of_char (digitChar d) :: nat) - 48 = d"
  by (simp add: digitChar_def)

lemma digitsValue_natToString: "digitsValue (natToString n) = n"
proof (induction n rule: natToString.induct)
  case (1 n)
  show ?case
  proof (cases "n < 10")
    case True
    then show ?thesis
      by (subst natToString.simps) (simp add: digitsValue_def digitsValue_digitChar)
  next
    case False
    then have "digitsValue (natToString (n div 10)) = n div 10" using 1 by simp
    then show ?thesis using False
      by (subst natToString.simps) (simp add: digitsValue_snoc digitsValue_digitChar)
  qed
qed

lemma digitsValue_zeros: "digitsValue (replicate k (CHR ''0'') @ ds) = digitsValue ds"
proof -
  have "foldl (\<lambda>a c. 10 * a + (of_char c - 48)) 0 (replicate k (CHR ''0'')) = (0::nat)"
    by (induction k) simp_all
  then show ?thesis by (simp add: digitsValue_def)
qed

lemma readFixed_parts:
  assumes "a \<noteq> []" "list_all isDigit a" "list_all isDigit b"
  shows "readFixed (a @ ''.'' @ b) = of_nat (digitsValue (a @ b)) / 10 ^ length b"
    and "readFixed (''-'' @ a @ ''.'' @ b) = - of_nat (digitsValue (a @ b)) / 10 ^ length b"
proof -
  obtain x xs where a: "a = x # xs" using assms(1) by (cases a) auto
  have x: "isDigit x" using assms(2) a by simp
  then have xm: "x \<noteq> CHR ''-''" using not_digit(2) by auto
  have dw: "dropWhile isDigit (a @ CHR ''.'' # b) = CHR ''.'' # b"
    using assms(2) not_digit(1) by (simp add: dropWhile_append2 list_all_iff)
  have fl: "filter isDigit (a @ CHR ''.'' # b) = a @ b"
    using assms(2,3) not_digit(1) by (simp add: list_all_iff)
  show "readFixed (a @ ''.'' @ b) = of_nat (digitsValue (a @ b)) / 10 ^ length b"
    using dw fl xm a by (simp add: readFixed_def)
  show "readFixed (''-'' @ a @ ''.'' @ b) = - of_nat (digitsValue (a @ b)) / 10 ^ length b"
    using dw fl by (simp add: readFixed_def)
qed

lemma toFixed_value:
  assumes "\<bar>x\<bar> < 10 ^ 21" "f \<noteq> 0"
  shows "readFixed (toFixed nts f x)
           = (if x < 0 then - 1 else 1) * of_int \<lfloor>\<bar>x\<bar> * 10 ^ f + 1 / 2\<rfloor> / 10 ^ f"
proof -
  define n where "n = nat \<lfloor>\<bar>x\<bar> * 10 ^ f + 1 / 2\<rfloor>"
  define m where "m = natToString n"
  define m2 where "m2 = (if length m \<le> f then replicate (f + 1 - length m) (CHR ''0'') @ m else m)"
  have md: "list_all isDigit m" and mn: "m \<noteq> []"
    by (simp_all add: m_def natToString_digits natToString_nonempty)
  have m2d: "list_all isDigit m2" using md not_digit(3) by (simp add: m2_def list_all_iff)
  have v: "digitsValue m2 = n"
    by (simp add: m2_def digitsValue_zeros m_def digitsValue_natToString)
  have len: "f < length m2" by (simp add: m2_def)
  have a: "take (length m2 - f) m2 \<noteq> []" using len by (cases m2) auto
  have ad: "list_all isDigit (take (length m2 - f) m2)"
    using m2d by (auto simp: list_all_iff dest: in_set_takeD)
  have bd: "list_all isDigit (drop (length m2 - f) m2)"
    using m2d by (auto simp: list_all_iff dest: in_set_dropD)
  have bl: "length (drop (length m2 - f) m2) = f" using len by simp
  have eq: "toFixed nts f x =
      (if x < 0 then ''-'' else []) @ take (length m2 - f) m2 @ ''.'' @ drop (length m2 - f) m2"
    using assms by (simp add: toFixed_def Let_def n_def m_def m2_def not_le)
  have nn: "0 \<le> \<lfloor>\<bar>x\<bar> * 10 ^ f + 1 / 2\<rfloor>" by simp
  then have n: "(of_nat n :: rat) = of_int \<lfloor>\<bar>x\<bar> * 10 ^ f + 1 / 2\<rfloor>"
    unfolding n_def by (metis of_int_of_nat_eq nat_0_le)
  show ?thesis
    using readFixed_parts[OF a ad bd] v n bl by (simp add: eq)
qed

lemma half_round: 
  fixes y :: rat
  shows "\<bar>of_int \<lfloor>y + 1 / 2\<rfloor> - y\<bar> \<le> 1 / 2"
proof -
  have 1: "of_int \<lfloor>y + 1 / 2\<rfloor> \<le> y + 1 / 2" by (rule of_int_floor_le)
  have 2: "y + 1 / 2 < of_int \<lfloor>y + 1 / 2\<rfloor> + 1" by linarith
  show ?thesis using 1 2 by linarith
qed

lemma scaled_round:
  fixes a :: rat
  assumes "0 < p"
  shows "\<bar>of_int \<lfloor>a * p + 1 / 2\<rfloor> / p - a\<bar> \<le> 1 / (2 * p)"
proof -
  let ?n = "of_int \<lfloor>a * p + 1 / 2\<rfloor> :: rat"
  have e: "?n / p - a = (?n - a * p) / p" using assms by (simp add: field_simps)
  have "\<bar>(?n - a * p) / p\<bar> = \<bar>?n - a * p\<bar> / p" using assms by (simp only: abs_div_pos)
  also have "\<dots> \<le> (1 / 2) / p"
    by (rule divide_right_mono[OF half_round less_imp_le[OF assms]])
  also have "\<dots> = 1 / (2 * p)" by simp
  finally show ?thesis by (simp only: e)
qed

lemma toFixed_rounds:
  assumes "\<bar>x\<bar> < 10 ^ 21" "f \<noteq> 0"
  shows "\<bar>readFixed (toFixed nts f x) - x\<bar> \<le> 1 / (2 * 10 ^ f)"
proof -
  let ?r = "of_int \<lfloor>\<bar>x\<bar> * 10 ^ f + 1 / 2\<rfloor> / 10 ^ f :: rat"
  have p: "(0::rat) < 10 ^ f" by simp
  have b: "\<bar>?r - \<bar>x\<bar>\<bar> \<le> 1 / (2 * 10 ^ f)" by (rule scaled_round[OF p])
  show ?thesis
  proof (cases "x < 0")
    case True
    then have v: "readFixed (toFixed nts f x) = - ?r"
      using toFixed_value[OF assms, of nts] by simp
    have "- ?r - x = - (?r - \<bar>x\<bar>)" using True by simp
    then have "\<bar>- ?r - x\<bar> = \<bar>?r - \<bar>x\<bar>\<bar>" by (simp only: abs_minus)
    then show ?thesis using b by (simp only: v)
  next
    case False
    then have v: "readFixed (toFixed nts f x) = ?r"
      using toFixed_value[OF assms, of nts] by simp
    have "\<bar>x\<bar> = x" using False by simp
    then have "\<bar>?r - x\<bar> = \<bar>?r - \<bar>x\<bar>\<bar>" by simp
    then show ?thesis using b by (simp only: v)
  qed
qed

subsection \<open>Claims on the CSV export\<close>

lemma join_Cons: "join sep (x # xs) = x @ concat (map (\<lambda>y. sep @ y) xs)"
  by (induction xs arbitrary: x) simp_all

lemma header_line:
  "join '','' headers = ''Part Number,Manufacturer,Category,Spec Match,Total Score,Price,Stock''"
  by (simp add: headers_def)

lemma exportToCSV_rows:
  "exportToCSV nts cs =
     ''Part Number,Manufacturer,Category,Spec Match,Total Score,Price,Stock'' @
     concat (map (\<lambda>c. [CHR 0x0A] @ csvRow (csvCells nts c)) cs)"
  by (simp add: exportToCSV_def join_Cons header_line comp_def)

lemma takeWhile_first_line:
  "takeWhile (\<lambda>ch. ch \<noteq> CHR 0x0A) (exportToCSV nts cs) =
     ''Part Number,Manufacturer,Category,Spec Match,Total Score,Price,Stock''"
  by (cases cs) (simp_all add: exportToCSV_rows)

lemma or_str_self: "or_str (Some a) [] = a"
  by (simp add: or_str_def truthy_def)

lemma csvCells_nth:
  "length (csvCells nts c) = 7"
  "csvCells nts c ! 0 = or_str (part_number c) (partNumber c)"
  "csvCells nts c ! 1 = manufacturer c"
  "csvCells nts c ! 2 = category c"
  "csvCells nts c ! 3 = fixedOrEmpty nts 1 (or_num (spec_match c) (specMatch c))"
  "csvCells nts c ! 4 = fixedOrEmpty nts 1 (or_num (total_score c) (totalScore c))"
  "csvCells nts c ! 5 = fixedOrEmpty nts 2 (price c)"
  "csvCells nts c ! 6 = nullish (stock c) []"
  by (simp_all add: csvCells_def or_str_self)

lemma fixedOrEmpty_Some:
  assumes "\<bar>x\<bar> < 10 ^ 21" "f \<noteq> 0"
  shows "fixedOrEmpty nts f (Some x) = toFixed nts f x"
    and "fixedFormat f (fixedOrEmpty nts f (Some x))"
    and "\<bar>readFixed (fixedOrEmpty nts f (Some x)) - x\<bar> \<le> 1 / (2 * 10 ^ f)"
  using toFixed_format[OF assms, of nts] toFixed_rounds[OF assms, of nts]
  by (simp_all add: fixedOrEmpty_def nullish_def)

lemma or_num_present:
  "(a = Some x \<and> x \<noteq> 0) \<or> (a = None \<and> b = Some x) \<Longrightarrow> or_num a b = Some x"
  by (auto simp: or_num_def)

text \<open>
  The format of the export. For every list of components it starts with the header line
  \<open>Part Number,Manufacturer,Category,Spec Match,Total Score,Price,Stock\<close> and continues
  with one line-feed-separated row per component, each the comma-joined, double-quoted
  seven cells of the component. A score is taken from \<open>spec_match\<close> when that is present
  and not zero, and from \<open>specMatch\<close> when \<open>spec_match\<close> is absent; such a score of magnitude
  below \<open>10^21\<close> is printed in fixed notation with one decimal, within \<open>1/20\<close> of its value,
  and a price of magnitude below \<open>10^21\<close> with two decimals, within \<open>1/200\<close>. A score
  missing in both fields and a missing price give an empty cell. Nothing is said here of a
  score of \<open>0\<close> in \<open>spec_match\<close>.
\<close>

lemma exportToCSV_format:
  "takeWhile (\<lambda>ch. ch \<noteq> CHR 0x0A) (exportToCSV nts cs)
     = ''Part Number,Manufacturer,Category,Spec Match,Total Score,Price,Stock''
   \<and> exportToCSV nts cs
     = ''Part Number,Manufacturer,Category,Spec Match,Total Score,Price,Stock'' @
       concat (map (\<lambda>c. [CHR 0x0A] @ join '','' (map quoteCell (csvCells nts c))) cs)
   \<and> length (csvCells nts c) = 7
   \<and> ((spec_match c = Some x \<and> x \<noteq> 0 \<or> spec_match c = None \<and> specMatch c = Some x)
        \<and> \<bar>x\<bar> < 10 ^ 21 \<longrightarrow>
        csvCells nts c ! 3 = toFixed nts 1 x \<and> fixedFormat 1 (csvCells nts c ! 3)
        \<and> \<bar>readFixed (csvCells nts c ! 3) - x\<bar> \<le> 1 / 20)
   \<and> ((total_score c = Some y \<and> y \<noteq> 0 \<or> total_score c = None \<and> totalScore c = Some y)
        \<and> \<bar>y\<bar> < 10 ^ 21 \<longrightarrow>
        csvCells nts c ! 4 = toFixed nts 1 y \<and> fixedFormat 1 (csvCells nts c ! 4)
        \<and> \<bar>readFixed (csvCells nts c ! 4) - y\<bar> \<le> 1 / 20)
   \<and> (price c = Some z \<and> \<bar>z\<bar> < 10 ^ 21 \<longrightarrow>
        csvCells nts c ! 5 = toFixed nts 2 z \<and> fixedFormat 2 (csvCells nts c ! 5)
        \<and> \<bar>readFixed (csvCells nts c ! 5) - z\<bar> \<le> 1 / 200)
   \<and> (spec_match c = None \<and> specMatch c = None \<longrightarrow> csvCells nts c ! 3 = [])
   \<and> (total_score c = None \<and> totalScore c = None \<longrightarrow> csvCells nts c ! 4 = [])
   \<and> (price c = None \<longrightarrow> csvCells nts c ! 5 = [])"
proof -
  have 1: "exportToCSV nts cs
     = ''Part Number,Manufacturer,Category,Spec Match,Total Score,Price,Stock'' @
       concat (map (\<lambda>c. [CHR 0x0A] @ join '','' (map quoteCell (csvCells nts c))) cs)"
    using exportToCSV_rows[of nts cs] by (simp add: csvRow_def)
  have 3: "(spec_match c = Some x \<and> x \<noteq> 0 \<or> spec_match c = None \<and> specMatch c = Some x)
        \<and> \<bar>x\<bar> < 10 ^ 21 \<longrightarrow>
        csvCells nts c ! 3 = toFixed nts 1 x \<and> fixedFormat 1 (csvCells nts c ! 3)
        \<and> \<bar>readFixed (csvCells nts c ! 3) - x\<bar> \<le> 1 / 20"
  proof
    assume a: "(spec_match c = Some x \<and> x \<noteq> 0 \<or> spec_match c = None \<and> specMatch c = Some x)
        \<and> \<bar>x\<bar> < 10 ^ 21"
    then have o: "or_num (spec_match c) (specMatch c) = Some x" by (simp add: or_num_present)
    from a have b: "\<bar>x\<bar> < 10 ^ 21" by simp
    show "csvCells nts c ! 3 = toFixed nts 1 x \<and> fixedFormat 1 (csvCells nts c ! 3)
        \<and> \<bar>readFixed (csvCells nts c ! 3) - x\<bar> \<le> 1 / 20"
      using fixedOrEmpty_Some[OF b, of 1 nts] by (simp add: csvCells_nth o)
  qed
  have 4: "(total_score c = Some y \<and> y \<noteq> 0 \<or> total_score c = None \<and> totalScore c = Some y)
        \<and> \<bar>y\<bar> < 10 ^ 21 \<longrightarrow>
        csvCells nts c ! 4 = toFixed nts 1 y \<and> fixedFormat 1 (csvCells nts c ! 4)
        \<and> \<bar>readFixed (csvCells nts c ! 4) - y\<bar> \<le> 1 / 20"
  proof
    assume a: "(total_score c = Some y \<and> y \<noteq> 0 \<or> total_score c = None \<and> totalScore c = Some y)
        \<and> \<bar>y\<bar> < 10 ^ 21"
    then have o: "or_num (total_score c) (totalScore c) = Some y" by (simp add: or_num_present)
    from a have b: "\<bar>y\<bar> < 10 ^ 21" by simp
    show "csvCells nts c ! 4 = toFixed nts 1 y \<and> fixedFormat 1 (csvCells nts c ! 4)
        \<and> \<bar>readFixed (csvCells nts c ! 4) - y\<bar> \<le> 1 / 20"
      using fixedOrEmpty_Some[OF b, of 1 nts] by (simp add: csvCells_nth o)
  qed
  have 5: "price c = Some z \<and> \<bar>z\<bar> < 10 ^ 21 \<longrightarrow>
        csvCells nts c ! 5 = toFixed nts 2 z \<and> fixedFormat 2 (csvCells nts c ! 5)
        \<and> \<bar>readFixed (csvCells nts c ! 5) - z\<bar> \<le> 1 / 200"
  proof
    assume a: "price c = Some z \<and> \<bar>z\<bar> < 10 ^ 21"
    then have b: "\<bar>z\<bar> < 10 ^ 21" by simp
    show "csvCells nts c ! 5 = toFixed nts 2 z \<and> fixedFormat 2 (csvCells nts c ! 5)
        \<and> \<bar>readFixed (csvCells nts c ! 5) - z\<bar> \<le> 1 / 200"
      using fixedOrEmpty_Some[OF b, of 2 nts] a by (simp add: csvCells_nth)
  qed
  have 6: "(spec_match c = None \<and> specMatch c = None \<longrightarrow> csvCells nts c ! 3 = [])
   \<and> (total_score c = None \<and> totalScore c = None \<longrightarrow> csvCells nts c ! 4 = [])
   \<and> (price c = None \<longrightarrow> csvCells nts c ! 5 = [])"
    by (simp add: csvCells_nth fixedOrEmpty_def nullish_def or_num_def)
  from takeWhile_first_line[of nts cs] 1 csvCells_nth(1)[of nts c] 3 4 5 6 show ?thesis
    by blast
qed

text \<open>The format at the component \<open>LM7805\<close> with scores \<open>95.5\<close> and \<open>92.3\<close> and price
  \<open>1.25\<close>.\<close>

lemma exportToCSV_format_example:
  "spec_match (sampleComponent ''1'' ''LM7805'' (Some (5 / 4))) = Some (191 / 2)
   \<and> total_score (sampleComponent ''1'' ''LM7805'' (Some (5 / 4))) = None
   \<and> totalScore (sampleComponent ''1'' ''LM7805'' (Some (5 / 4))) = Some (923 / 10)
   \<and> price (sampleComponent ''1'' ''LM7805'' (Some (5 / 4))) = Some (5 / 4)
   \<and> csvCells integerToString (sampleComponent ''1'' ''LM7805'' (Some (5 / 4)))
       = [''LM7805'', ''Texas Instruments'', ''Voltage Regulator'', ''95.5'', ''92.3'', ''1.25'',
          ''In Stock'']
   \<and> fixedFormat 1 (csvCells integerToString (sampleComponent ''1'' ''LM7805'' (Some (5 / 4))) ! 3)
   \<and> fixedFormat 1 (csvCells integerToString (sampleComponent ''1'' ''LM7805'' (Some (5 / 4))) ! 4)
   \<and> fixedFormat 2 (csvCells integerToString (sampleComponent ''1'' ''LM7805'' (Some (5 / 4))) ! 5)
   \<and> takeWhile (\<lambda>ch. ch \<noteq> CHR 0x0A)
         (exportToCSV integerToString [sampleComponent ''1'' ''LM7805'' (Some (5 / 4))])
       = ''Part Number,Manufacturer,Category,Spec Match,Total Score,Price,Stock''"
proof -
  let ?c = "sampleComponent ''1'' ''LM7805'' (Some (5 / 4))"
  have f: "spec_match ?c = Some (191 / 2)" "total_score ?c = None"
    "totalScore ?c = Some (923 / 10)" "price ?c = Some (5 / 4)"
    by (simp_all add: sampleComponent_def)
  have b: "\<bar>191 / 2 :: rat\<bar> < 10 ^ 21" "\<bar>923 / 10 :: rat\<bar> < 10 ^ 21" "\<bar>5 / 4 :: rat\<bar> < 10 ^ 21"
    "(191 / 2 :: rat) \<noteq> 0"
    by simp_all
  have cells: "csvCells integerToString ?c
       = [''LM7805'', ''Texas Instruments'', ''Voltage Regulator'', ''95.5'', ''92.3'', ''1.25'',
          ''In Stock'']"
    by code_simp
  note th = exportToCSV_format [where nts = integerToString and cs = "[?c]" and c = ?c
      and x = "191 / 2" and y = "923 / 10" and z = "5 / 4"]
  from th f b have 3: "fixedFormat 1 (csvCells integerToString ?c ! 3)" by blast
  from th f b have 4: "fixedFormat 1 (csvCells integerToString ?c ! 4)" by blast
  from th f b have 5: "fixedFormat 2 (csvCells integerToString ?c ! 5)" by blast
  from th have 1: "takeWhile (\<lambda>ch. ch \<noteq> CHR 0x0A) (exportToCSV integerToString [?c])
       = ''Part Number,Manufacturer,Category,Spec Match,Total Score,Price,Stock''" by blast
  from f cells 3 4 5 1 show ?thesis by blast
qed

text \<open>
  C7 fails on the code. A match score of \<open>0\<close> that the component carries in \<open>spec_match\<close>
  (with no \<open>specMatch\<close>) is exported as an empty cell, not as \<open>0.0\<close>:
  \<open>(spec_match || specMatch)\<close> takes the \<open>0\<close> for a missing value. The price beside it goes
  through \<open>price?.toFixed(2) ?? ""\<close> and its \<open>0\<close> is exported as \<open>0.00\<close>; and the same
  score of \<open>0\<close> carried in \<open>specMatch\<close> is exported as \<open>0.0\<close>.
\<close>

theorem exportToCSV_zero_score:
  "csvCells integerToString
      ((sampleComponent ''1'' ''LM7805'' (Some 0))\<lparr>spec_match := Some 0, specMatch := None\<rparr>)
     = [''LM7805'', ''Texas Instruments'', ''Voltage Regulator'', [], ''92.3'', ''0.00'',
        ''In Stock'']
   \<and> \<not> fixedFormat 1 (csvCells integerToString
      ((sampleComponent ''1'' ''LM7805'' (Some 0))\<lparr>spec_match := Some 0, specMatch := None\<rparr>) ! 3)
   \<and> fixedFormat 2 (csvCells integerToString
      ((sampleComponent ''1'' ''LM7805'' (Some 0))\<lparr>spec_match := Some 0, specMatch := None\<rparr>) ! 5)
   \<and> csvCells integerToString
      ((sampleComponent ''1'' ''LM7805'' (Some 0))\<lparr>spec_match := None, specMatch := Some 0\<rparr>) ! 3
     = ''0.0''"
  by code_simp

subsection \<open>Reading the export back\<close>

lemma scan_quoted_body:
  "CHR 0x22 \<notin> set cell \<Longrightarrow>
     csvScan InQuoted fld row (cell @ CHR 0x22 # rest) = csvScan QuoteInQuoted (rev cell @ fld) row rest"
  by (induction cell arbitrary: fld) auto

lemma scan_quoted_cell:
  "CHR 0x22 \<notin> set cell \<Longrightarrow>
     csvScan FieldStart [] row (quoteCell cell @ rest) = csvScan QuoteInQuoted (rev cell) row rest"
  using scan_quoted_body[of cell "[]" row rest] by (simp add: quoteCell_def)

lemma scan_after_quote:
  "csvScan QuoteInQuoted fld row (CHR '','' # rest) = csvScan FieldStart [] (rev fld # row) rest"
  "csvScan QuoteInQuoted fld row (CHR 0x0A # rest) = rev (rev fld # row) # csvScan FieldStart [] [] rest"
  "csvScan QuoteInQuoted fld row [] = [rev (rev fld # row)]"
  "csvScan InField fld row (CHR 0x0A # rest) = rev (rev fld # row) # csvScan FieldStart [] [] rest"
  "csvScan InField fld row [] = [rev (rev fld # row)]"
  by simp_all

lemma scan_quoted_row:
  "cells \<noteq> [] \<Longrightarrow> \<forall>cell \<in> set cells. CHR 0x22 \<notin> set cell \<Longrightarrow>
     csvScan FieldStart [] row (csvRow cells @ rest)
       = csvScan QuoteInQuoted (rev (last cells)) (rev (butlast cells) @ row) rest"
proof (induction cells arbitrary: row)
  case Nil
  then show ?case by simp
next
  case (Cons x xs)
  show ?case
  proof (cases xs)
    case Nil
    then show ?thesis using Cons.prems scan_quoted_cell[of x row rest] by (simp add: csvRow_def)
  next
    case (Cons y ys)
    have j: "csvRow (x # xs) = quoteCell x @ CHR '','' # csvRow xs"
      using Cons by (simp add: csvRow_def)
    have "csvScan FieldStart [] row (csvRow (x # xs) @ rest)
            = csvScan QuoteInQuoted (rev x) row (CHR '','' # csvRow xs @ rest)"
      using Cons.prems scan_quoted_cell[of x row "CHR '','' # csvRow xs @ rest"] by (simp add: j)
    also have "\<dots> = csvScan FieldStart [] (x # row) (csvRow xs @ rest)"
      by (simp only: scan_after_quote rev_rev_ident)
    also have "\<dots> = csvScan QuoteInQuoted (rev (last xs)) (rev (butlast xs) @ x # row) rest"
      using Cons.IH[of "x # row"] Cons.prems Cons by simp
    finally show ?thesis using Cons by simp
  qed
qed

lemma scan_rows:
  assumes "\<forall>c \<in> set cs. cells c \<noteq> [] \<and> (\<forall>cell \<in> set (cells c). CHR 0x22 \<notin> set cell)"
    and "st = InField \<or> st = QuoteInQuoted"
  shows "csvScan st fld row (concat (map (\<lambda>c. [CHR 0x0A] @ csvRow (cells c)) cs))
           = rev (rev fld # row) # map cells cs"
  using assms
proof (induction cs arbitrary: st fld row)
  case Nil
  then show ?case by auto
next
  case (Cons c cs)
  let ?rest = "concat (map (\<lambda>c. [CHR 0x0A] @ csvRow (cells c)) cs)"
  have ne: "cells c \<noteq> []" and nq: "\<forall>cell \<in> set (cells c). CHR 0x22 \<notin> set cell"
    using Cons.prems(1) by simp_all
  have "csvScan st fld row (concat (map (\<lambda>c. [CHR 0x0A] @ csvRow (cells c)) (c # cs)))
          = csvScan st fld row (CHR 0x0A # csvRow (cells c) @ ?rest)" by simp
  also have "\<dots> = rev (rev fld # row) # csvScan FieldStart [] [] (csvRow (cells c) @ ?rest)"
    using Cons.prems(2) by (auto simp only: scan_after_quote)
  also have "csvScan FieldStart [] [] (csvRow (cells c) @ ?rest)
          = csvScan QuoteInQuoted (rev (last (cells c))) (rev (butlast (cells c)) @ []) ?rest"
    by (rule scan_quoted_row[OF ne nq])
  also have "\<dots> = rev (rev (rev (last (cells c))) # rev (butlast (cells c)) @ []) # map cells cs"
    using Cons.IH[of QuoteInQuoted "rev (last (cells c))" "rev (butlast (cells c)) @ []"] Cons.prems(1)
    by simp
  also have "rev (rev (rev (last (cells c))) # rev (butlast (cells c)) @ []) = cells c"
    using ne by simp
  finally show ?case by simp
qed

lemma scan_header:
  "csvScan FieldStart [] []
     (''Part Number,Manufacturer,Category,Spec Match,Total Score,Price,Stock'' @ rest)
     = csvScan InField (rev ''Stock'')
         (rev [''Part Number'', ''Manufacturer'', ''Category'', ''Spec Match'', ''Total Score'',
               ''Price'']) rest"
  by simp

lemma parseCSV_exportToCSV:
  assumes "\<forall>c \<in> set cs. \<forall>cell \<in> set (csvCells nts c). CHR 0x22 \<notin> set cell"
  shows "parseCSV (exportToCSV nts cs) = headers # map (csvCells nts) cs"
proof -
  have a: "\<forall>c \<in> set cs. csvCells nts c \<noteq> [] \<and> (\<forall>cell \<in> set (csvCells nts c). CHR 0x22 \<notin> set cell)"
    using assms csvCells_nth(1) by (metis length_0_conv zero_neq_numeral)
  show ?thesis
    unfolding parseCSV_def exportToCSV_rows scan_header
    using scan_rows[of cs "csvCells nts" InField, OF a]
    by (simp add: headers_def)
qed

text \<open>
  When no cell of any component contains a double quote, reading the export back gives
  one data row per component, and the row is the list of the component's cells: the
  part number as it is, and the price as \<open>toFixed(2)\<close> printed it.
\<close>

lemma csv_roundtrip_without_quotes:
  assumes "\<forall>c \<in> set cs. \<forall>cell \<in> set (csvCells nts c). CHR 0x22 \<notin> set cell"
  shows "dataRows (exportToCSV nts cs) = map (csvCells nts) cs"
    and "length (dataRows (exportToCSV nts cs)) = length cs"
    and "i < length cs \<Longrightarrow>
           dataRows (exportToCSV nts cs) ! i ! 0 = or_str (part_number (cs ! i)) (partNumber (cs ! i))
         \<and> dataRows (exportToCSV nts cs) ! i ! 5 = fixedOrEmpty nts 2 (price (cs ! i))"
  using parseCSV_exportToCSV[OF assms] by (simp_all add: dataRows_def csvCells_nth)

text \<open>
  C6 fails on the code. A cell is wrapped in double quotes but a double quote inside it
  is not doubled. The part number \<open>2.5" HDD\<close> is read back as \<open>2.5 HDD"\<close>; and one
  component whose part number holds a double quote, a line feed and a double quote is
  read back as two data rows.
\<close>

theorem csv_roundtrip_breaks_on_quote:
  "dataRows (exportToCSV integerToString
      [sampleComponent ''1'' (''2.5'' @ [CHR 0x22] @ '' HDD'') (Some (5 / 4))])
     = [[''2.5 HDD'' @ [CHR 0x22], ''Texas Instruments'', ''Voltage Regulator'', ''95.5'', ''92.3'',
         ''1.25'', ''In Stock'']]
   \<and> hd (hd (dataRows (exportToCSV integerToString
      [sampleComponent ''1'' (''2.5'' @ [CHR 0x22] @ '' HDD'') (Some (5 / 4))])))
     \<noteq> partNumber (sampleComponent ''1'' (''2.5'' @ [CHR 0x22] @ '' HDD'') (Some (5 / 4)))
   \<and> length (dataRows (exportToCSV integerToString
      [sampleComponent ''1'' (''A'' @ [CHR 0x22, CHR 0x0A, CHR 0x22] @ ''B'') (Some (5 / 4))])) = 2"
  by code_simp

end
